theory Spec2Isabelle
  imports Main "HOL-Library.Multiset"
begin

section \<open>Values, errors and the platform\<close>

text \<open>
  A thrown exception is a value. \<open>TypeError\<close> is what the engine raises when a property
  of \<open>null\<close> or \<open>undefined\<close> is read (its message text belongs to the engine);
  \<open>Error msg\<close> is \<open>throw new Error(msg)\<close>.
\<close>

datatype error = TypeError | Error string

text \<open>An array slot that may hold \<open>undefined\<close>, \<open>null\<close> or an object.\<close>

datatype 'a js = Undefined | Null | Val 'a

text \<open>
  \<open>AsDefault.defaultValue\<close> is declared \<open>string | number | null\<close>, and the property
  is absent (\<open>undefined\<close>) on entities that are not input values. \<open>DNum n\<close> is an
  integral number of magnitude below 10^21, which prints in plain decimal notation.
\<close>

datatype DefaultValue = DUndefined | DNull | DNum int | DStr string

text \<open>
  What the code takes from outside the repository: the line terminator \<open>os.EOL\<close>, the
  \<open>word-wrap\<close> package (\<open>wrap text width indent\<close>), \<open>String.prototype.localeCompare\<close>,
  and \<open>Object.prototype\<close>: \<open>inherited n\<close> is the text that \<open>util.format\<close> prints under
  \<open>%s\<close> for the member of \<open>Object.prototype\<close> named \<open>n\<close>, and \<open>None\<close> when it has no
  member of that name.
\<close>

record Platform =
  EOL :: string
  wrap :: "string \<Rightarrow> nat \<Rightarrow> string \<Rightarrow> string"
  localeCompare :: "string \<Rightarrow> string \<Rightarrow> int"
  inherited :: "string \<Rightarrow> string option"

text \<open>Source truthiness of a string that may be \<open>null\<close>, and of a default value.\<close>

definition truthy :: "string option \<Rightarrow> bool" where
  "truthy s = (case s of None \<Rightarrow> False | Some v \<Rightarrow> v \<noteq> [])"

definition text_of :: "string option \<Rightarrow> string" where
  "text_of s = (case s of None \<Rightarrow> ''null'' | Some v \<Rightarrow> v)"

fun truthy_default :: "DefaultValue \<Rightarrow> bool" where
  "truthy_default DUndefined = False"
| "truthy_default DNull = False"
| "truthy_default (DNum n) = (n \<noteq> 0)"
| "truthy_default (DStr s) = (s \<noteq> [])"

function digits :: "nat \<Rightarrow> string" where
  "digits n = (if n < 10 then [char_of (48 + n)]
               else digits (n div 10) @ [char_of (48 + n mod 10)])"
  by pat_completeness auto
termination
  by (relation "measure (\<lambda>n. n)") auto

declare digits.simps [simp del]

fun ToString :: "DefaultValue \<Rightarrow> string" where
  "ToString DUndefined = ''undefined''"
| "ToString DNull = ''null''"
| "ToString (DNum n) = (if n < 0 then ''-'' @ digits (nat (- n)) else digits (nat n))"
| "ToString (DStr s) = s"

text \<open>\<open>Array.prototype.join\<close> on an array of strings.\<close>

fun join :: "string \<Rightarrow> string list \<Rightarrow> string" where
  "join sep [] = []"
| "join sep [x] = x"
| "join sep (x # y # ys) = x @ sep @ join sep (y # ys)"

text \<open>\<open>Array.prototype.map\<close> with a callback that may throw: the first throw wins.\<close>

fun mapE :: "('a \<Rightarrow> error + 'b) \<Rightarrow> 'a list \<Rightarrow> error + 'b list" where
  "mapE f [] = Inr []"
| "mapE f (x # xs) =
     (case f x of Inl e \<Rightarrow> Inl e
      | Inr y \<Rightarrow> (case mapE f xs of Inl e \<Rightarrow> Inl e | Inr ys \<Rightarrow> Inr (y # ys)))"

section \<open>The introspection data model (interface.ts)\<close>

record Description =
  name :: string
  description :: "string option"
  kind :: "string option"

datatype TypeRef = TypeRef (base: Description) (ofType: "TypeRef option")

record EnumValue = Description +
  isDeprecated :: bool
  deprecationReason :: "string option"

record InputValue = Description +
  defaultValue :: DefaultValue
  type :: TypeRef

record Field = Description +
  isDeprecated :: bool
  deprecationReason :: "string option"
  args :: "InputValue list"
  type :: TypeRef

record SchemaType = Description +
  fields' :: "Field list"
  inputFields :: "InputValue list"
  interfaces :: "TypeRef list"
  enumValues :: "EnumValue list"
  possibleTypes :: "TypeRef list"

record Directive = Description +
  locations :: "string list"
  args :: "InputValue list"

text \<open>
  The root types are tested for truthiness, so they may be \<open>null\<close> (\<open>None\<close>); the slots
  of \<open>types\<close> are tested too, and the sort treats \<open>undefined\<close> and \<open>null\<close> differently.
\<close>

record Schema =
  queryType :: "Description option"
  mutationType :: "Description option"
  subscriptionType :: "Description option"
  types :: "SchemaType js list"
  directives :: "Directive list"

text \<open>
  Modelled from the spec: the kind constants exported by \<open>./introspection\<close>, a module that
  is not among the sources. The spec and the README list the kinds by these names, and
  \<open>TypeOrder\<close> below is indexed by them.
\<close>

definition SCALAR :: string where "SCALAR = ''SCALAR''"
definition ENUM :: string where "ENUM = ''ENUM''"
definition UNION :: string where "UNION = ''UNION''"
definition INTERFACE :: string where "INTERFACE = ''INTERFACE''"
definition OBJECT :: string where "OBJECT = ''OBJECT''"
definition INPUT_OBJECT :: string where "INPUT_OBJECT = ''INPUT_OBJECT''"
definition LIST :: string where "LIST = ''LIST''"
definition NON_NULL :: string where "NON_NULL = ''NON_NULL''"

lemmas kind_defs =
  SCALAR_def ENUM_def UNION_def INTERFACE_def OBJECT_def INPUT_OBJECT_def LIST_def NON_NULL_def

section \<open>Utilities and the type-reference resolver (typescript.ts)\<close>

definition TAB :: string where "TAB = ''    ''"

definition LF :: string where "LF = [CHR 0x0A]"

definition beginComment :: "string \<Rightarrow> string" where
  "beginComment tab = tab @ ''/**''"

definition toComment :: "Platform \<Rightarrow> string \<Rightarrow> string \<Rightarrow> string" where
  "toComment P comment tab = wrap P comment 80 (tab @ '' * '')"

definition endComment :: "string \<Rightarrow> string" where
  "endComment tab = tab @ '' */''"

definition utilDefinition :: "Platform \<Rightarrow> string" where
  "utilDefinition P = join (EOL P)
     [''type NonNull<T> = T;'', ''type List<T> = T[];'', ''type Optional<T> = T | null;'']"

definition responseDefinition :: "Platform \<Rightarrow> string list \<Rightarrow> string" where
  "responseDefinition P responseTypes = join (EOL P)
     [''export interface Response {'',
      '''',
      TAB @ ''data: '' @ join '' | '' responseTypes @ '';'',
      '''',
      TAB @ ''errors?: ErrorResponse[];'',
      ''}'',
      '''',
      ''export interface ErrorResponse {'',
      '''',
      TAB @ ''locations: ErrorLocation[];'',
      '''',
      TAB @ ''message: string;'',
      ''}'',
      '''',
      ''export interface ErrorLocation {'',
      '''',
      TAB @ ''line: number;'',
      '''',
      TAB @ ''column: number;'',
      ''}'']"

text \<open>
  \<open>refToDefinition(type, isNonNull = false)\<close>. A wrapper whose \<open>ofType\<close> is missing makes
  the recursive call read \<open>kind\<close> of \<open>undefined\<close>, which throws.
\<close>

fun refToDefinition :: "TypeRef \<Rightarrow> bool \<Rightarrow> error + string" where
  "refToDefinition (TypeRef d ot) isNonNull =
     (if kind d = Some LIST then
        (case ot of None \<Rightarrow> Inl TypeError
         | Some inner \<Rightarrow>
             (case refToDefinition inner False of Inl e \<Rightarrow> Inl e
              | Inr s \<Rightarrow> Inr (''List<'' @ s @ ''>'')))
      else if kind d = Some NON_NULL then
        (case ot of None \<Rightarrow> Inl TypeError
         | Some inner \<Rightarrow>
             (case refToDefinition inner True of Inl e \<Rightarrow> Inl e
              | Inr s \<Rightarrow> Inr (''NonNull<'' @ s @ ''>'')))
      else Inr (if isNonNull then name d else ''Optional<'' @ name d @ ''>''))"

section \<open>Documentation comments\<close>

text \<open>
  \<open>descriptionToComment\<close> receives an object typed
  \<open>Description | Deprecation | AsDefault\<close> and reads four properties of it; a property the
  object does not have reads as \<open>undefined\<close>, which is falsy. \<open>Commentable\<close> is that
  view of an entity, and the four functions below build it for each kind of caller.
\<close>

record Commentable =
  c_defaultValue :: DefaultValue
  c_description :: "string option"
  c_isDeprecated :: bool
  c_deprecationReason :: "string option"

definition of_description :: "'a Description_scheme \<Rightarrow> Commentable" where
  "of_description t = \<lparr>c_defaultValue = DUndefined, c_description = description t,
     c_isDeprecated = False, c_deprecationReason = None\<rparr>"

definition of_field :: "Field \<Rightarrow> Commentable" where
  "of_field f = \<lparr>c_defaultValue = DUndefined, c_description = description f,
     c_isDeprecated = Field.isDeprecated f, c_deprecationReason = Field.deprecationReason f\<rparr>"

definition of_enumValue :: "EnumValue \<Rightarrow> Commentable" where
  "of_enumValue v = \<lparr>c_defaultValue = DUndefined, c_description = description v,
     c_isDeprecated = EnumValue.isDeprecated v,
     c_deprecationReason = EnumValue.deprecationReason v\<rparr>"

definition of_inputValue :: "InputValue \<Rightarrow> Commentable" where
  "of_inputValue a = \<lparr>c_defaultValue = defaultValue a, c_description = description a,
     c_isDeprecated = False, c_deprecationReason = None\<rparr>"

definition descriptionToComment :: "Platform \<Rightarrow> Commentable \<Rightarrow> string \<Rightarrow> string" where
  "descriptionToComment P desc tab =
     (if truthy_default (c_defaultValue desc) \<or> truthy (c_description desc) \<or> c_isDeprecated desc
      then
        let def0 = [];
            def1 = (if c_isDeprecated desc then
                      let deprecated = ''@deprecated'' @
                            (if truthy (c_deprecationReason desc)
                             then '' '' @ text_of (c_deprecationReason desc) else [])
                      in def0 @ [toComment P deprecated tab]
                    else def0);
            def2 = (if truthy_default (c_defaultValue desc) then
                      (if length def1 > 0 then def1 @ [toComment P [] tab] else def1)
                        @ [toComment P (''@default '' @ ToString (c_defaultValue desc)) tab]
                    else def1);
            def3 = (if truthy (c_description desc) then
                      (if length def2 > 0 then def2 @ [toComment P [] tab] else def2)
                        @ [toComment P (text_of (c_description desc)) tab]
                    else def2)
        in join LF (beginComment tab # def3 @ [endComment tab])
      else [])"

section \<open>The renderers, one per kind\<close>

text \<open>
  \<open>scalarToDefinition(type, typescriptAlias = 'string')\<close>: the alias argument is the
  lookup \<open>scalarAlias[type.name]\<close>, \<open>undefined\<close> (\<open>None\<close>) when the table has no entry.
\<close>

definition scalarToDefinition :: "Platform \<Rightarrow> SchemaType \<Rightarrow> string option \<Rightarrow> string" where
  "scalarToDefinition P t typescriptAlias =
     (let def0 = (if truthy (description t) then [descriptionToComment P (of_description t) []]
                  else [])
      in join (EOL P)
           (def0 @ [''export type '' @ name t @ '' = ''
                      @ (case typescriptAlias of None \<Rightarrow> ''string'' | Some a \<Rightarrow> a) @ '';'']))"

definition fieldToDefinition :: "Platform \<Rightarrow> Field \<Rightarrow> error + string" where
  "fieldToDefinition P field =
     (let def0 = [[]];
          assign = (if kind (base (Field.type field)) = Some NON_NULL then '': '' else ''?: '');
          def1 = (if truthy (description field) \<or> Field.isDeprecated field
                  then def0 @ [descriptionToComment P (of_field field) TAB] else def0)
      in case refToDefinition (Field.type field) False of Inl e \<Rightarrow> Inl e
         | Inr r \<Rightarrow> Inr (join (EOL P) (def1 @ [TAB @ name field @ assign @ r @ '';''])))"

definition fieldsToDefinition :: "Platform \<Rightarrow> Field list \<Rightarrow> error + string" where
  "fieldsToDefinition P fs =
     (case mapE (fieldToDefinition P) fs of Inl e \<Rightarrow> Inl e
      | Inr ls \<Rightarrow> Inr (join (EOL P) ls))"

definition typeToDefinition :: "Platform \<Rightarrow> SchemaType \<Rightarrow> error + string" where
  "typeToDefinition P t =
     (let impl = (if length (interfaces t) > 0
                  then '' extends '' @ join '', '' (map (\<lambda>inter. name (base inter)) (interfaces t))
                  else []);
          def0 = (if truthy (description t) then [descriptionToComment P (of_description t) []]
                  else [])
      in case fieldsToDefinition P (fields' t) of Inl e \<Rightarrow> Inl e
         | Inr body \<Rightarrow>
             Inr (join (EOL P)
                    (def0 @ [''export interface '' @ name t @ impl @ '' {'', body, ''}''])))"

definition interfaceToDefinition :: "Platform \<Rightarrow> SchemaType \<Rightarrow> error + string" where
  "interfaceToDefinition P t =
     (let def0 = (if truthy (description t) then [descriptionToComment P (of_description t) []]
                  else [])
      in case fieldsToDefinition P (fields' t) of Inl e \<Rightarrow> Inl e
         | Inr body \<Rightarrow>
             Inr (join (EOL P) (def0 @ [''export interface '' @ name t @ '' {'', body, ''}''])))"

definition inputValueToDefinition :: "Platform \<Rightarrow> InputValue \<Rightarrow> error + string" where
  "inputValueToDefinition P arg =
     (let def0 = [[]];
          assign = (if kind (base (InputValue.type arg)) = Some NON_NULL then '': '' else ''?: '');
          def1 = (if truthy (description arg)
                  then def0 @ [descriptionToComment P (of_inputValue arg) TAB] else def0)
      in case refToDefinition (InputValue.type arg) False of Inl e \<Rightarrow> Inl e
         | Inr r \<Rightarrow> Inr (join (EOL P) (def1 @ [TAB @ name arg @ assign @ r @ '';''])))"

definition inputValuesToDefinition :: "Platform \<Rightarrow> InputValue list \<Rightarrow> error + string" where
  "inputValuesToDefinition P as =
     (case mapE (inputValueToDefinition P) as of Inl e \<Rightarrow> Inl e
      | Inr ls \<Rightarrow> Inr (join (EOL P) ls))"

definition inputToDefinition :: "Platform \<Rightarrow> SchemaType \<Rightarrow> error + string" where
  "inputToDefinition P t =
     (let def0 = (if truthy (description t) then [descriptionToComment P (of_description t) []]
                  else [])
      in case inputValuesToDefinition P (inputFields t) of Inl e \<Rightarrow> Inl e
         | Inr body \<Rightarrow>
             Inr (join (EOL P) (def0 @ [''export interface '' @ name t @ '' {'', body, ''}''])))"

definition unionToDefinition :: "Platform \<Rightarrow> SchemaType \<Rightarrow> string" where
  "unionToDefinition P t =
     (let def0 = (if truthy (description t) then [descriptionToComment P (of_description t) []]
                  else [])
      in join (EOL P)
           (def0 @ [''export type '' @ name t @ '' = ''
                      @ join '' | '' (map (\<lambda>possibleType. name (base possibleType))
                                         (possibleTypes t)) @ '';'']))"

definition enumValueToDefinition :: "Platform \<Rightarrow> EnumValue \<Rightarrow> string" where
  "enumValueToDefinition P v =
     (let def0 = [[]];
          def1 = (if truthy (description v)
                  then def0 @ [descriptionToComment P (of_enumValue v) TAB] else def0)
      in join (EOL P) (def1 @ [TAB @ [CHR 0x22] @ name v @ [CHR 0x22]]))"

definition enumValuesToDefinition :: "Platform \<Rightarrow> EnumValue list \<Rightarrow> string" where
  "enumValuesToDefinition P vals = join ('' |'' @ EOL P) (map (enumValueToDefinition P) vals)"

definition enumToDefinition :: "Platform \<Rightarrow> SchemaType \<Rightarrow> string" where
  "enumToDefinition P t =
     (let def0 = (if truthy (description t) then [descriptionToComment P (of_description t) []]
                  else [])
      in join (EOL P)
           (def0 @ [''export type '' @ name t @ '' = ('',
                    enumValuesToDefinition P (enumValues t), '');'']))"

section \<open>The work queue\<close>

text \<open>
  The queue holds closures \<open>() => string\<close>. Each closure is one of eight shapes and
  captures the entity it renders (the scalar closure also the merged alias table, which it
  reads when it runs), so a closure is a constructor with what it captured.

  The merged alias table is a plain object, and \<open>scalarAlias[type.name]\<close> reads it with
  its prototype chain: an own entry wins, and a name with no own entry finds the member
  of \<open>Object.prototype\<close> of that name (\<open>constructor\<close>, \<open>toString\<close>, ...) when there is
  one. Such a member is not \<open>undefined\<close>, so the default \<open>'string'\<close> of
  \<open>scalarToDefinition\<close> does not apply to it and \<open>format\<close> prints it. The entries of the
  table are strings, as its type declares.
\<close>

definition lookupAlias :: "Platform \<Rightarrow> (string \<rightharpoonup> string) \<Rightarrow> string \<Rightarrow> string option" where
  "lookupAlias P scalarAlias n =
     (case scalarAlias n of Some a \<Rightarrow> Some a | None \<Rightarrow> inherited P n)"

datatype Task =
    UtilTask
  | ResponseTask "string list"
  | ScalarTask SchemaType "string \<rightharpoonup> string"
  | EnumTask SchemaType
  | UnionTask SchemaType
  | InterfaceTask SchemaType
  | ObjectTask SchemaType
  | InputTask SchemaType

fun run :: "Platform \<Rightarrow> Task \<Rightarrow> error + string" where
  "run P UtilTask = Inr (utilDefinition P)"
| "run P (ResponseTask responseTypes) = Inr (responseDefinition P responseTypes)"
| "run P (ScalarTask t scalarAlias) =
     Inr (scalarToDefinition P t (lookupAlias P scalarAlias (name t)))"
| "run P (EnumTask t) = Inr (enumToDefinition P t)"
| "run P (UnionTask t) = Inr (unionToDefinition P t)"
| "run P (InterfaceTask t) = interfaceToDefinition P t"
| "run P (ObjectTask t) = typeToDefinition P t"
| "run P (InputTask t) = inputToDefinition P t"

fun entity :: "Task \<Rightarrow> SchemaType option" where
  "entity UtilTask = None"
| "entity (ResponseTask responseTypes) = None"
| "entity (ScalarTask t scalarAlias) = Some t"
| "entity (EnumTask t) = Some t"
| "entity (UnionTask t) = Some t"
| "entity (InterfaceTask t) = Some t"
| "entity (ObjectTask t) = Some t"
| "entity (InputTask t) = Some t"

text \<open>
  \<open>enum TypeOrder\<close>, read as \<open>TypeOrder[kind]\<close>. Only the six member names give a number;
  any other key gives \<open>undefined\<close> (or a non-number), and a subtraction with it is \<open>NaN\<close>.
\<close>

definition TypeOrder :: "string option \<Rightarrow> int option" where
  "TypeOrder k =
     (if k = Some ''SCALAR'' then Some 0
      else if k = Some ''ENUM'' then Some 1
      else if k = Some ''UNION'' then Some 2
      else if k = Some ''INTERFACE'' then Some 3
      else if k = Some ''OBJECT'' then Some 4
      else if k = Some ''INPUT_OBJECT'' then Some 5
      else None)"

text \<open>
  The comparator handed to \<open>sort\<close>. It reads \<open>kind\<close> of both arguments first, which throws on
  \<open>null\<close>. A \<open>NaN\<close> result is given as 0, which is how the sort reads it.
\<close>

definition compareTypes :: "Platform \<Rightarrow> SchemaType js \<Rightarrow> SchemaType js \<Rightarrow> error + int" where
  "compareTypes P typeA typeB =
     (case typeA of
        Val a \<Rightarrow>
          (case typeB of
             Val b \<Rightarrow>
               Inr (if kind a = kind b then localeCompare P (name a) (name b)
                    else (case TypeOrder (kind a) of None \<Rightarrow> 0
                          | Some m \<Rightarrow> (case TypeOrder (kind b) of None \<Rightarrow> 0 | Some n \<Rightarrow> m - n)))
           | _ \<Rightarrow> Inl TypeError)
      | _ \<Rightarrow> Inl TypeError)"

text \<open>
  \<open>Array.prototype.sort(comparefn)\<close> belongs to the engine. It moves the \<open>undefined\<close> slots to
  the end without comparing them and sorts the others with the comparator, whose throw
  it passes on. The others are sorted here by a stable insertion sort: each element goes
  before the first element of the sorted prefix that the comparator puts after it.
\<close>

fun insert_by :: "('a \<Rightarrow> 'a \<Rightarrow> error + int) \<Rightarrow> 'a \<Rightarrow> 'a list \<Rightarrow> error + 'a list" where
  "insert_by cmp x [] = Inr [x]"
| "insert_by cmp x (y # ys) =
     (case cmp y x of Inl e \<Rightarrow> Inl e
      | Inr c \<Rightarrow>
          if c > 0 then Inr (x # y # ys)
          else (case insert_by cmp x ys of Inl e \<Rightarrow> Inl e | Inr zs \<Rightarrow> Inr (y # zs)))"

fun sort_into :: "('a \<Rightarrow> 'a \<Rightarrow> error + int) \<Rightarrow> 'a list \<Rightarrow> 'a list \<Rightarrow> error + 'a list" where
  "sort_into cmp [] acc = Inr acc"
| "sort_into cmp (x # xs) acc =
     (case insert_by cmp x acc of Inl e \<Rightarrow> Inl e | Inr acc' \<Rightarrow> sort_into cmp xs acc')"

definition Array_sort ::
  "('a js \<Rightarrow> 'a js \<Rightarrow> error + int) \<Rightarrow> 'a js list \<Rightarrow> error + 'a js list" where
  "Array_sort cmp xs =
     (case sort_into cmp (filter (\<lambda>x. x \<noteq> Undefined) xs) [] of Inl e \<Rightarrow> Inl e
      | Inr ys \<Rightarrow> Inr (ys @ filter (\<lambda>x. x = Undefined) xs))"

text \<open>
  The \<open>forEach\<close> callback, run over the sorted array: a falsy slot is passed over, and
  the \<open>switch\<close> on the kind of any other slot either appends a closure or throws. A kind
  that is \<open>undefined\<close> is concatenated as the text \<open>undefined\<close>.
\<close>

definition kind_text :: "string option \<Rightarrow> string" where
  "kind_text k = (case k of None \<Rightarrow> ''undefined'' | Some v \<Rightarrow> v)"

definition dispatch :: "(string \<rightharpoonup> string) \<Rightarrow> SchemaType \<Rightarrow> error + Task" where
  "dispatch scalarAlias t =
     (if kind t = Some SCALAR then Inr (ScalarTask t scalarAlias)
      else if kind t = Some ENUM then Inr (EnumTask t)
      else if kind t = Some UNION then Inr (UnionTask t)
      else if kind t = Some INTERFACE then Inr (InterfaceTask t)
      else if kind t = Some OBJECT then Inr (ObjectTask t)
      else if kind t = Some INPUT_OBJECT then Inr (InputTask t)
      else Inl (Error (''Unexpected type: '' @ kind_text (kind t))))"

fun forEach_push ::
  "(string \<rightharpoonup> string) \<Rightarrow> SchemaType js list \<Rightarrow> Task list \<Rightarrow> error + Task list" where
  "forEach_push scalarAlias [] schemaDef = Inr schemaDef"
| "forEach_push scalarAlias (Val t # ts) schemaDef =
     (case dispatch scalarAlias t of Inl e \<Rightarrow> Inl e
      | Inr task \<Rightarrow> forEach_push scalarAlias ts (schemaDef @ [task]))"
| "forEach_push scalarAlias (Undefined # ts) schemaDef = forEach_push scalarAlias ts schemaDef"
| "forEach_push scalarAlias (Null # ts) schemaDef = forEach_push scalarAlias ts schemaDef"

text \<open>
  \<open>Object.assign({}, scalarAlias, {Boolean: .., Int: .., Float: .., String: ..})\<close>: a fresh
  object that takes the caller's entries first and the four standard ones after them.
  \<open>Object.assign\<close> stores each entry by assignment, and assigning a string to the key
  \<open>__proto__\<close> of a plain object does nothing, so a caller's entry under that key is
  not taken.
\<close>

definition standardAlias :: "string \<rightharpoonup> string" where
  "standardAlias = [''Boolean'' \<mapsto> ''boolean'', ''Int'' \<mapsto> ''number'',
                    ''Float'' \<mapsto> ''number'', ''String'' \<mapsto> ''string'']"

definition mergedAlias :: "(string \<rightharpoonup> string) \<Rightarrow> (string \<rightharpoonup> string)" where
  "mergedAlias scalarAlias = (scalarAlias(''__proto__'' := None)) ++ standardAlias"

definition rootNames :: "Schema \<Rightarrow> string list" where
  "rootNames schema =
     (case queryType schema of None \<Rightarrow> [] | Some q \<Rightarrow> [name q])
     @ (case mutationType schema of None \<Rightarrow> [] | Some m \<Rightarrow> [name m])
     @ (case subscriptionType schema of None \<Rightarrow> [] | Some s \<Rightarrow> [name s])"

text \<open>
  \<open>createSchemaDefinitionQueue\<close>. The sort is done in place on \<open>schema.types\<close>, so the
  function returns the schema as it leaves it together with the queue. When it throws,
  nothing is said of what the array holds.
\<close>

definition createSchemaDefinitionQueue ::
  "Platform \<Rightarrow> Schema \<Rightarrow> (string \<rightharpoonup> string) \<Rightarrow> error + (Schema \<times> Task list)" where
  "createSchemaDefinitionQueue P schema scalarAlias =
     (let scalarAlias' = mergedAlias scalarAlias;
          responseTypes = rootNames schema @ [''null''];
          schemaDef = [UtilTask, ResponseTask responseTypes]
      in case Array_sort (compareTypes P) (types schema) of Inl e \<Rightarrow> Inl e
         | Inr sortedTypes \<Rightarrow>
             (case forEach_push scalarAlias' sortedTypes schemaDef of Inl e \<Rightarrow> Inl e
              | Inr queue \<Rightarrow> Inr (schema\<lparr>types := sortedTypes\<rparr>, queue)))"

section \<open>The three ways to run the queue\<close>

definition schemaToDefinition ::
  "Platform \<Rightarrow> Schema \<Rightarrow> (string \<rightharpoonup> string) \<Rightarrow> error + (Schema \<times> string)" where
  "schemaToDefinition P schema scalarAlias =
     (case createSchemaDefinitionQueue P schema scalarAlias of Inl e \<Rightarrow> Inl e
      | Inr (schema', queue) \<Rightarrow>
          (case mapE (run P) queue of Inl e \<Rightarrow> Inl e
           | Inr outs \<Rightarrow> Inr (schema', join (EOL P @ EOL P) outs @ EOL P @ EOL P)))"

text \<open>
  \<open>ReadableFromQueue\<close>. \<open>push\<close> belongs to the stream library; what it returns on its n-th
  call is the parameter \<open>accept n\<close>. \<open>push(null)\<close> ends the stream.
\<close>

record Readable =
  r_queue :: "Task list"
  chunks :: "string list"
  ended :: bool

fun read_loop ::
  "Platform \<Rightarrow> (nat \<Rightarrow> bool) \<Rightarrow> bool \<Rightarrow> Task list \<Rightarrow> string list
     \<Rightarrow> error + (bool \<times> Task list \<times> string list)" where
  "read_loop P accept isPaused [] out = Inr (isPaused, [], out)"
| "read_loop P accept isPaused (task # queue) out =
     (if isPaused then Inr (isPaused, task # queue, out)
      else (case run P task of Inl e \<Rightarrow> Inl e
            | Inr text \<Rightarrow>
                read_loop P accept (accept (length out)) queue (out @ [text @ EOL P @ EOL P])))"

definition read' :: "Platform \<Rightarrow> (nat \<Rightarrow> bool) \<Rightarrow> Readable \<Rightarrow> error + Readable" where
  "read' P accept s =
     (case read_loop P accept False (r_queue s) (chunks s) of Inl e \<Rightarrow> Inl e
      | Inr (isPaused, queue, out) \<Rightarrow>
          Inr \<lparr>r_queue = queue, chunks = out, ended = (if \<not> isPaused then True else ended s)\<rparr>)"

definition createReadableSchemaDefinition ::
  "Platform \<Rightarrow> Schema \<Rightarrow> (string \<rightharpoonup> string) \<Rightarrow> error + (Schema \<times> Readable)" where
  "createReadableSchemaDefinition P schema scalarAlias =
     (case createSchemaDefinitionQueue P schema scalarAlias of Inl e \<Rightarrow> Inl e
      | Inr (schema', queue) \<Rightarrow> Inr (schema', \<lparr>r_queue = queue, chunks = [], ended = False\<rparr>))"

text \<open>
  A consumer that asks for data until the stream ends: it calls \<open>_read\<close> again and again,
  at most \<open>fuel\<close> times. \<open>None\<close> says the fuel ran out before the end.
\<close>

fun consume ::
  "Platform \<Rightarrow> (nat \<Rightarrow> bool) \<Rightarrow> nat \<Rightarrow> Readable \<Rightarrow> (error + string) option" where
  "consume P accept 0 s = (if ended s then Some (Inr (concat (chunks s))) else None)"
| "consume P accept (Suc fuel) s =
     (if ended s then Some (Inr (concat (chunks s)))
      else (case read' P accept s of Inl e \<Rightarrow> Some (Inl e)
            | Inr s' \<Rightarrow> consume P accept fuel s'))"

text \<open>
  \<open>createPromiseSchemaDefinition\<close>. The executor declares \<open>buff\<close> and the function \<open>next\<close>
  and returns. \<open>next\<close> resolves the promise when the queue is empty; otherwise it runs one
  closure and hands itself to \<open>process.nextTick\<close>, or rejects when the closure throws.
  \<open>ticks\<close> counts the callbacks handed to \<open>process.nextTick\<close> and not yet run, and
  \<open>run_ticks\<close> is the event loop running them.
\<close>

datatype outcome = Pending | Resolved string | Rejected error

record PromiseRun =
  p_queue :: "Task list"
  buff :: string
  settled :: outcome
  ticks :: nat

definition settle :: "outcome \<Rightarrow> PromiseRun \<Rightarrow> PromiseRun" where
  "settle r s = (if settled s = Pending then s\<lparr>settled := r\<rparr> else s)"

definition "next" :: "Platform \<Rightarrow> PromiseRun \<Rightarrow> PromiseRun" where
  "next P s =
     (case p_queue s of
        [] \<Rightarrow> settle (Resolved (buff s)) s
      | task # queue \<Rightarrow>
          (case run P task of
             Inr text \<Rightarrow> s\<lparr>p_queue := queue, buff := buff s @ text @ EOL P @ EOL P,
                            ticks := ticks s + 1\<rparr>
           | Inl err \<Rightarrow> settle (Rejected err) (s\<lparr>p_queue := queue\<rparr>)))"

function run_ticks :: "Platform \<Rightarrow> PromiseRun \<Rightarrow> PromiseRun" where
  "run_ticks P s = (if ticks s = 0 then s else run_ticks P (next P (s\<lparr>ticks := ticks s - 1\<rparr>)))"
  by pat_completeness auto
termination
  by (relation "measure (\<lambda>(P, s). 2 * length (p_queue s) + ticks s)")
     (auto simp: next_def settle_def split: list.splits sum.splits)

declare run_ticks.simps [simp del]

definition executor :: "Task list \<Rightarrow> PromiseRun" where
  "executor queue = \<lparr>p_queue = queue, buff = [], settled = Pending, ticks = 0\<rparr>"

definition createPromiseSchemaDefinition ::
  "Platform \<Rightarrow> Schema \<Rightarrow> (string \<rightharpoonup> string) \<Rightarrow> error + (Schema \<times> outcome)" where
  "createPromiseSchemaDefinition P schema scalarAlias =
     (case createSchemaDefinitionQueue P schema scalarAlias of Inl e \<Rightarrow> Inl e
      | Inr (schema', queue) \<Rightarrow> Inr (schema', settled (run_ticks P (executor queue))))"

section \<open>What the claims observe\<close>

text \<open>The objects among the slots of an array, and the entities a queue renders, in order.\<close>

fun vals :: "'a js list \<Rightarrow> 'a list" where
  "vals [] = []"
| "vals (Val t # xs) = t # vals xs"
| "vals (Undefined # xs) = vals xs"
| "vals (Null # xs) = vals xs"

fun entities :: "Task list \<Rightarrow> SchemaType list" where
  "entities [] = []"
| "entities (task # queue) =
     (case entity task of None \<Rightarrow> entities queue | Some t \<Rightarrow> t # entities queue)"

definition emitted :: "Platform \<Rightarrow> Schema \<Rightarrow> (string \<rightharpoonup> string) \<Rightarrow> error + SchemaType list" where
  "emitted P schema scalarAlias =
     (case createSchemaDefinitionQueue P schema scalarAlias of Inl e \<Rightarrow> Inl e
      | Inr (schema', queue) \<Rightarrow> Inr (entities queue))"

definition blocks :: "Platform \<Rightarrow> Schema \<Rightarrow> (string \<rightharpoonup> string) \<Rightarrow> error + (error + string) list" where
  "blocks P schema scalarAlias =
     (case createSchemaDefinitionQueue P schema scalarAlias of Inl e \<Rightarrow> Inl e
      | Inr (schema', queue) \<Rightarrow> Inr (map (run P) (drop 2 queue)))"

definition typesAfter :: "Platform \<Rightarrow> Schema \<Rightarrow> (string \<rightharpoonup> string) \<Rightarrow> error + SchemaType js list" where
  "typesAfter P schema scalarAlias =
     (case createSchemaDefinitionQueue P schema scalarAlias of Inl e \<Rightarrow> Inl e
      | Inr (schema', queue) \<Rightarrow> Inr (types schema'))"

text \<open>
  The order of the claims: kind precedence first, the locale's comparison of the names
  within a kind. It relates entities of the six kinds only.
\<close>

definition precedes :: "Platform \<Rightarrow> SchemaType \<Rightarrow> SchemaType \<Rightarrow> bool" where
  "precedes P a b =
     (case TypeOrder (kind a) of None \<Rightarrow> False
      | Some m \<Rightarrow>
          (case TypeOrder (kind b) of None \<Rightarrow> False
           | Some n \<Rightarrow> m < n \<or> (m = n \<and> localeCompare P (name a) (name b) \<le> 0)))"

text \<open>
  What a sort needs of the locale's comparison: swapping the arguments swaps the sign,
  and "not after" is transitive.
\<close>

definition consistent :: "(string \<Rightarrow> string \<Rightarrow> int) \<Rightarrow> bool" where
  "consistent lc =
     ((\<forall>a b. (lc a b < 0) = (0 < lc b a))
      \<and> (\<forall>a b c. lc a b \<le> 0 \<and> lc b c \<le> 0 \<longrightarrow> lc a c \<le> 0))"

section \<open>A concrete platform\<close>

text \<open>
  Used to run the definitions on examples: POSIX line ends, a wrap that only indents
  (what \<open>word-wrap\<close> returns for one short line), a comparison by character code (which
  agrees with the locale on names that differ first in a digit or in letters of one
  case), and the members of \<open>Object.prototype\<close> as V8 has them, printed as \<open>String\<close>
  prints them.
\<close>

definition prototypeFunctions :: "string list" where
  "prototypeFunctions = [''toString'', ''toLocaleString'', ''valueOf'', ''hasOwnProperty'',
     ''isPrototypeOf'', ''propertyIsEnumerable'', ''__defineGetter__'', ''__defineSetter__'',
     ''__lookupGetter__'', ''__lookupSetter__'']"

definition prototypeMember :: "string \<Rightarrow> string option" where
  "prototypeMember n =
     (if n = ''constructor'' then Some ''function Object() { [native code] }''
      else if n = ''__proto__'' then Some ''[object Object]''
      else if n \<in> set prototypeFunctions then Some (''function '' @ n @ ''() { [native code] }'')
      else None)"

fun ordinalCompare :: "string \<Rightarrow> string \<Rightarrow> int" where
  "ordinalCompare [] [] = 0"
| "ordinalCompare [] (y # ys) = - 1"
| "ordinalCompare (x # xs) [] = 1"
| "ordinalCompare (x # xs) (y # ys) =
     (if (of_char x :: nat) < of_char y then - 1
      else if (of_char y :: nat) < of_char x then 1
      else ordinalCompare xs ys)"

definition indentOnly :: "string \<Rightarrow> nat \<Rightarrow> string \<Rightarrow> string" where
  "indentOnly text width indent = indent @ text"

definition posix :: Platform where
  "posix = \<lparr>EOL = LF, wrap = indentOnly, localeCompare = ordinalCompare,
     inherited = prototypeMember\<rparr>"

definition entityOf :: "string \<Rightarrow> string \<Rightarrow> SchemaType" where
  "entityOf n k = \<lparr>name = n, description = None, kind = Some k, fields' = [], inputFields = [],
     interfaces = [], enumValues = [], possibleTypes = []\<rparr>"

definition schemaOf :: "SchemaType js list \<Rightarrow> Schema" where
  "schemaOf ts = \<lparr>queryType = None, mutationType = None, subscriptionType = None,
     types = ts, directives = []\<rparr>"

text \<open>The four shapes of reference the claims speak of, over a leaf \<open>d\<close>.\<close>

definition wrapper :: "string \<Rightarrow> TypeRef \<Rightarrow> TypeRef" where
  "wrapper k t = TypeRef \<lparr>name = [], description = None, kind = Some k\<rparr> (Some t)"

definition named :: "Description \<Rightarrow> TypeRef" where
  "named d = TypeRef d None"

definition is_leaf :: "Description \<Rightarrow> bool" where
  "is_leaf d = (kind d \<noteq> Some LIST \<and> kind d \<noteq> Some NON_NULL)"

section \<open>Notions used in the proofs\<close>

text \<open>A comparator that agrees with a transitive relation R on a set S sorts S by R.\<close>

definition agrees :: "('a \<Rightarrow> 'a \<Rightarrow> error + int) \<Rightarrow> ('a \<Rightarrow> 'a \<Rightarrow> bool) \<Rightarrow> 'a set \<Rightarrow> bool" where
  "agrees cmp R S =
     ((\<forall>a\<in>S. \<forall>b\<in>S. \<exists>c. cmp a b = Inr c \<and> (0 < c \<longrightarrow> R b a \<and> \<not> R a b) \<and> (c \<le> 0 \<longrightarrow> R a b))
      \<and> (\<forall>a\<in>S. \<forall>b\<in>S. \<forall>c\<in>S. R a b \<and> R b c \<longrightarrow> R a c))"

definition slot_precedes :: "Platform \<Rightarrow> SchemaType js \<Rightarrow> SchemaType js \<Rightarrow> bool" where
  "slot_precedes P a b =
     (case a of Val x \<Rightarrow> (case b of Val y \<Rightarrow> precedes P x y | _ \<Rightarrow> False) | _ \<Rightarrow> False)"

definition known :: "SchemaType js set" where
  "known = {s. \<exists>t. s = Val t \<and> TypeOrder (kind t) \<noteq> None}"

definition objects :: "'a js list \<Rightarrow> bool" where
  "objects xs = (\<forall>x\<in>set xs. \<exists>t. x = Val t)"

text \<open>The examples of the claims.\<close>

definition orderingExample :: Schema where
  "orderingExample = schemaOf [Val (entityOf ''B'' OBJECT), Val (entityOf ''A'' SCALAR),
     Val (entityOf ''Z'' ENUM), Val (entityOf ''A2'' OBJECT)]"

definition orderingSorted :: Schema where
  "orderingSorted = schemaOf [Val (entityOf ''A'' SCALAR), Val (entityOf ''Z'' ENUM),
     Val (entityOf ''A2'' OBJECT), Val (entityOf ''B'' OBJECT)]"

definition friends :: InputValue where
  "friends = \<lparr>name = ''friends'', description = None, kind = None, defaultValue = DStr ''[]'',
     type = wrapper LIST (wrapper NON_NULL (named \<lparr>name = ''ID'', description = None, kind = Some SCALAR\<rparr>))\<rparr>"

definition intSchema :: Schema where
  "intSchema = schemaOf [Val (entityOf ''Int'' SCALAR)]"

definition orderingText :: string where
  "orderingText =
     utilDefinition posix @ LF @ LF @ responseDefinition posix [''null''] @ LF @ LF
     @ ''export type A = string;'' @ LF @ LF
     @ ''export type Z = ('' @ LF @ LF @ '');'' @ LF @ LF
     @ ''export interface A2 {'' @ LF @ LF @ ''}'' @ LF @ LF
     @ ''export interface B {'' @ LF @ LF @ ''}'' @ LF @ LF"

section \<open>The resolver's nullability table\<close>

text \<open>
  C2. For a named type T (a reference whose kind is neither LIST nor NON_NULL), the
  resolver started with the flag at its default (false) gives: T as \<open>Optional<T>\<close>; NON_NULL(T)
  as \<open>NonNull<T>\<close>, the bare name inside; LIST(T) as \<open>List<Optional<T>>\<close>; and
  NON_NULL(LIST(NON_NULL(T))) as exactly \<open>NonNull<List<NonNull<T>>>\<close>, the other list
  shapes giving \<open>NonNull<List<Optional<T>>>\<close> and \<open>List<NonNull<T>>\<close>. Descending into
  any LIST resolves the inner reference with the flag false and descending into any
  NON_NULL with the flag true, whatever the flag was.
\<close>

theorem refToDefinition_nullability:
  assumes "is_leaf d"
  shows "refToDefinition (named d) False = Inr (''Optional<'' @ name d @ ''>'')
    \<and> refToDefinition (wrapper NON_NULL (named d)) False = Inr (''NonNull<'' @ name d @ ''>'')
    \<and> refToDefinition (wrapper LIST (named d)) False
          = Inr (''List<Optional<'' @ name d @ ''>>'')
    \<and> refToDefinition (wrapper NON_NULL (wrapper LIST (wrapper NON_NULL (named d)))) False
          = Inr (''NonNull<List<NonNull<'' @ name d @ ''>>>'')
    \<and> refToDefinition (wrapper NON_NULL (wrapper LIST (named d))) False
          = Inr (''NonNull<List<Optional<'' @ name d @ ''>>>'')
    \<and> refToDefinition (wrapper LIST (wrapper NON_NULL (named d))) False
          = Inr (''List<NonNull<'' @ name d @ ''>>'')
    \<and> (kind w = Some LIST \<longrightarrow>
          refToDefinition (TypeRef w (Some t)) b
            = (case refToDefinition t False of Inl e \<Rightarrow> Inl e
               | Inr s \<Rightarrow> Inr (''List<'' @ s @ ''>'')))
    \<and> (kind w = Some NON_NULL \<longrightarrow>
          refToDefinition (TypeRef w (Some t)) b
            = (case refToDefinition t True of Inl e \<Rightarrow> Inl e
               | Inr s \<Rightarrow> Inr (''NonNull<'' @ s @ ''>'')))"
  using assms by (simp add: named_def wrapper_def is_leaf_def kind_defs)

theorem refToDefinition_nullability_witness:
  "is_leaf \<lparr>name = ''ID'', description = None, kind = Some SCALAR\<rparr>
   \<and> refToDefinition (wrapper NON_NULL (wrapper LIST (wrapper NON_NULL
        (named \<lparr>name = ''ID'', description = None, kind = Some SCALAR\<rparr>)))) False
      = Inr ''NonNull<List<NonNull<ID>>>''"
proof -
  let ?d = "\<lparr>name = ''ID'', description = None, kind = Some SCALAR\<rparr>"
  have leaf: "is_leaf ?d"
    by (simp add: is_leaf_def kind_defs)
  have "refToDefinition (wrapper NON_NULL (wrapper LIST (wrapper NON_NULL (named ?d)))) False
          = Inr (''NonNull<List<NonNull<'' @ name ?d @ ''>>>'')"
    using refToDefinition_nullability [OF leaf] by blast
  then show ?thesis
    using leaf by simp
qed

section \<open>The comment synthesizer\<close>

lemma join_Cons_nonempty: "x \<noteq> [] \<Longrightarrow> join sep (x # xs) \<noteq> []"
  by (cases xs) simp_all

text \<open>
  C8. The comment synthesizer returns a block (a non-empty text) exactly when the default
  value, the description or the deprecation flag is truthy. In particular, for an entity
  whose default value is the number 0 or the empty string, with no description and not
  deprecated, it returns the empty string, so no \<open>@default\<close> line is produced.
\<close>

theorem descriptionToComment_presence:
  "(descriptionToComment P c tab \<noteq> []
      \<longleftrightarrow> truthy_default (c_defaultValue c) \<or> truthy (c_description c) \<or> c_isDeprecated c)
   \<and> ((c_defaultValue c = DNum 0 \<or> c_defaultValue c = DStr [])
        \<and> \<not> truthy (c_description c) \<and> \<not> c_isDeprecated c
        \<longrightarrow> descriptionToComment P c tab = [])"
proof -
  have nonempty_open: "beginComment tab \<noteq> []"
    by (simp add: beginComment_def)
  have "descriptionToComment P c tab \<noteq> []"
    if "truthy_default (c_defaultValue c) \<or> truthy (c_description c) \<or> c_isDeprecated c"
    using that join_Cons_nonempty [OF nonempty_open]
    by (simp add: descriptionToComment_def Let_def del: join.simps)
  moreover have "descriptionToComment P c tab = []"
    if "\<not> (truthy_default (c_defaultValue c) \<or> truthy (c_description c) \<or> c_isDeprecated c)"
    using that by (simp add: descriptionToComment_def)
  ultimately show ?thesis
    by auto
qed

theorem descriptionToComment_presence_witness:
  "(c_defaultValue \<lparr>c_defaultValue = DNum 0, c_description = None, c_isDeprecated = False,
        c_deprecationReason = None\<rparr> = DNum 0)
   \<and> \<not> truthy None
   \<and> descriptionToComment posix
        \<lparr>c_defaultValue = DNum 0, c_description = None, c_isDeprecated = False,
          c_deprecationReason = None\<rparr> TAB = []
   \<and> descriptionToComment posix
        \<lparr>c_defaultValue = DStr [], c_description = Some [], c_isDeprecated = False,
          c_deprecationReason = None\<rparr> TAB = []"
  using descriptionToComment_presence [of posix
      "\<lparr>c_defaultValue = DNum 0, c_description = None, c_isDeprecated = False,
          c_deprecationReason = None\<rparr>" TAB]
    descriptionToComment_presence [of posix
      "\<lparr>c_defaultValue = DStr [], c_description = Some [], c_isDeprecated = False,
          c_deprecationReason = None\<rparr>" TAB]
  by (simp add: truthy_def)

text \<open>
  C9. For an input value whose description is empty (\<open>null\<close> or the empty string), the
  rendered member is the blank first line and the member line alone, with no comment
  block: the result does not depend on the default value, although the synthesizer would
  return a block with the \<open>@default\<close> line for a truthy default value.
\<close>

theorem inputValueToDefinition_no_comment:
  assumes "\<not> truthy (description arg)"
  shows "inputValueToDefinition P arg
           = (case refToDefinition (InputValue.type arg) False of Inl e \<Rightarrow> Inl e
              | Inr r \<Rightarrow>
                  Inr (EOL P @ TAB @ name arg
                       @ (if kind (base (InputValue.type arg)) = Some NON_NULL then '': '' else ''?: '')
                       @ r @ '';''))
         \<and> inputValueToDefinition P (arg\<lparr>defaultValue := dv\<rparr>) = inputValueToDefinition P arg
         \<and> (truthy_default (defaultValue arg)
              \<longrightarrow> descriptionToComment P (of_inputValue arg) TAB \<noteq> [])"
proof -
  have "descriptionToComment P (of_inputValue arg) TAB \<noteq> []" if "truthy_default (defaultValue arg)"
    using that join_Cons_nonempty [of "beginComment TAB"]
    by (simp add: descriptionToComment_def Let_def of_inputValue_def beginComment_def del: join.simps)
  then show ?thesis
    using assms by (simp add: inputValueToDefinition_def split: sum.splits)
qed

theorem inputValueToDefinition_no_comment_witness:
  "\<not> truthy (description friends) \<and> truthy_default (defaultValue friends)
   \<and> inputValueToDefinition posix friends = Inr (LF @ ''    friends?: List<NonNull<ID>>;'')
   \<and> descriptionToComment posix (of_inputValue friends) TAB \<noteq> []"
  using inputValueToDefinition_no_comment [of friends posix]
  by (simp add: friends_def truthy_def posix_def TAB_def wrapper_def named_def kind_defs)

section \<open>Sorting and queuing the entities\<close>

subsection \<open>The sort\<close>

lemma insert_by_mset: "insert_by cmp x ys = Inr zs \<Longrightarrow> mset zs = add_mset x (mset ys)"
  by (induction ys arbitrary: zs) (auto split: sum.splits if_splits)

lemma sort_into_mset: "sort_into cmp xs acc = Inr ys \<Longrightarrow> mset ys = mset xs + mset acc"
  by (induction xs arbitrary: acc) (auto split: sum.splits dest!: insert_by_mset)

lemma Array_sort_mset: "Array_sort cmp xs = Inr ys \<Longrightarrow> mset ys = mset xs"
  by (auto simp: Array_sort_def split: sum.splits dest!: sort_into_mset)

lemma Array_sort_shape:
  "Array_sort cmp xs = Inr ys \<Longrightarrow>
     \<exists>ds. sort_into cmp (filter (\<lambda>x. x \<noteq> Undefined) xs) [] = Inr ds
          \<and> ys = ds @ filter (\<lambda>x. x = Undefined) xs"
  by (auto simp: Array_sort_def split: sum.splits)

lemma insert_by_sorted:
  assumes "agrees cmp R S" "x \<in> S" "set ys \<subseteq> S" "sorted_wrt R ys"
  shows "\<exists>zs. insert_by cmp x ys = Inr zs \<and> sorted_wrt R zs"
  using assms(3,4)
proof (induction ys)
  case Nil
  then show ?case by simp
next
  case (Cons y ys)
  from Cons.prems have y: "y \<in> S" and ys: "set ys \<subseteq> S" and srt: "sorted_wrt R ys"
    and below: "\<forall>z\<in>set ys. R y z"
    by auto
  from assms(1,2) y obtain c where c: "cmp y x = Inr c" "0 < c \<longrightarrow> R x y" "c \<le> 0 \<longrightarrow> R y x"
    unfolding agrees_def by blast
  show ?case
  proof (cases "0 < c")
    case True
    have "R x z" if "z \<in> set ys" for z
      using that assms(1,2) y ys below c(2) True unfolding agrees_def by blast
    with True c Cons.prems show ?thesis by auto
  next
    case False
    from Cons.IH [OF ys srt] obtain zs where zs: "insert_by cmp x ys = Inr zs" "sorted_wrt R zs"
      by blast
    from insert_by_mset [OF zs(1)] have "set zs = insert x (set ys)"
      by (metis mset_eq_setD set_mset_add_mset_insert set_mset_mset)
    with False c zs below show ?thesis by auto
  qed
qed

lemma insert_by_set: "insert_by cmp x ys = Inr zs \<Longrightarrow> set zs = insert x (set ys)"
  by (metis insert_by_mset mset_eq_setD set_mset_add_mset_insert set_mset_mset)

lemma sort_into_sorted:
  assumes "agrees cmp R S"
  shows "set xs \<subseteq> S \<Longrightarrow> set acc \<subseteq> S \<Longrightarrow> sorted_wrt R acc
         \<Longrightarrow> \<exists>ys. sort_into cmp xs acc = Inr ys \<and> sorted_wrt R ys"
proof (induction xs arbitrary: acc)
  case Nil
  then show ?case by simp
next
  case (Cons x xs)
  from insert_by_sorted [OF assms, of x acc] Cons.prems
  obtain zs where zs: "insert_by cmp x acc = Inr zs" "sorted_wrt R zs"
    by auto
  with Cons.prems insert_by_set [OF zs(1)] have "set zs \<subseteq> S" by auto
  from Cons.IH [OF _ this zs(2)] Cons.prems zs show ?case by auto
qed

lemma insert_by_last:
  assumes "agrees cmp R S" "x \<in> S" "set ys \<subseteq> S" "\<forall>y\<in>set ys. R y x"
  shows "insert_by cmp x ys = Inr (ys @ [x])"
  using assms(3,4)
proof (induction ys)
  case Nil
  then show ?case by simp
next
  case (Cons y ys)
  from assms(1,2) Cons.prems obtain c where "cmp y x = Inr c" "0 < c \<longrightarrow> \<not> R y x"
    unfolding agrees_def by (metis list.set_intros(1) subsetD)
  with Cons show ?case by auto
qed

lemma sort_into_sorted_id:
  assumes "agrees cmp R S"
  shows "set xs \<subseteq> S \<Longrightarrow> set acc \<subseteq> S \<Longrightarrow> sorted_wrt R (acc @ xs)
         \<Longrightarrow> sort_into cmp xs acc = Inr (acc @ xs)"
proof (induction xs arbitrary: acc)
  case Nil
  then show ?case by simp
next
  case (Cons x xs)
  have "insert_by cmp x acc = Inr (acc @ [x])"
    using insert_by_last [OF assms, of x acc] Cons.prems by (auto simp: sorted_wrt_append)
  moreover have "sort_into cmp xs (acc @ [x]) = Inr ((acc @ [x]) @ xs)"
    using Cons.prems by (intro Cons.IH) auto
  ultimately show ?case by simp
qed

subsection \<open>The comparator of the queue builder\<close>

lemma TypeOrder_inj: "TypeOrder k = Some m \<Longrightarrow> TypeOrder k' = Some m \<Longrightarrow> k = k'"
  by (auto simp: TypeOrder_def split: if_splits)

lemma precedes_trans:
  assumes "consistent (localeCompare P)" "precedes P a b" "precedes P b c"
  shows "precedes P a c"
proof -
  from assms(2,3) obtain m n k where mnk:
    "TypeOrder (kind a) = Some m" "TypeOrder (kind b) = Some n" "TypeOrder (kind c) = Some k"
    by (auto simp: precedes_def split: option.splits)
  from assms(1) have tr: "\<And>u v w. localeCompare P u v \<le> 0 \<Longrightarrow> localeCompare P v w \<le> 0
      \<Longrightarrow> localeCompare P u w \<le> 0"
    unfolding consistent_def by blast
  from assms(2,3) mnk show ?thesis
    by (auto simp: precedes_def dest: tr)
qed

lemma compareTypes_agrees:
  assumes "consistent (localeCompare P)"
  shows "agrees (compareTypes P) (slot_precedes P) known"
proof -
  from assms have sw: "\<And>u v. (localeCompare P u v < 0) = (0 < localeCompare P v u)"
    unfolding consistent_def by blast
  have cmp: "\<exists>c. compareTypes P a b = Inr c \<and> (0 < c \<longrightarrow> slot_precedes P b a \<and> \<not> slot_precedes P a b)
               \<and> (c \<le> 0 \<longrightarrow> slot_precedes P a b)"
    if "a \<in> known" "b \<in> known" for a b
  proof -
    from that obtain x y m n where xy: "a = Val x" "b = Val y"
      "TypeOrder (kind x) = Some m" "TypeOrder (kind y) = Some n"
      by (auto simp: known_def)
    show ?thesis
    proof (cases "kind x = kind y")
      case True
      with xy have "m = n" by simp
      with xy True sw [of "name y" "name x"] show ?thesis
        by (auto simp: compareTypes_def slot_precedes_def precedes_def)
    next
      case False
      with xy TypeOrder_inj have "m \<noteq> n" by blast
      with xy False show ?thesis
        by (auto simp: compareTypes_def slot_precedes_def precedes_def)
    qed
  qed
  have "slot_precedes P a c" if "slot_precedes P a b" "slot_precedes P b c" for a b c
    using that precedes_trans [OF assms]
    by (auto simp: slot_precedes_def split: js.splits)
  with cmp show ?thesis
    unfolding agrees_def by blast
qed

lemma vals_append: "vals (xs @ ys) = vals xs @ vals ys"
  by (induction xs rule: vals.induct) simp_all

lemma vals_undefined: "vals (filter (\<lambda>x. x = Undefined) xs) = []"
  by (induction xs rule: vals.induct) simp_all

lemma vals_defined: "vals (filter (\<lambda>x. x \<noteq> Undefined) xs) = vals xs"
  by (induction xs rule: vals.induct) simp_all

lemma set_vals: "set (vals xs) = {t. Val t \<in> set xs}"
  by (induction xs rule: vals.induct) auto

lemma mset_vals: "mset xs = mset ys \<Longrightarrow> mset (vals xs) = mset (vals ys)"
proof -
  have "mset (vals zs) = image_mset (\<lambda>s. case s of Val t \<Rightarrow> t) (filter_mset (\<lambda>s. \<exists>t. s = Val t) (mset zs))"
    for zs :: "'a js list"
    by (induction zs rule: vals.induct) simp_all
  then show "mset xs = mset ys \<Longrightarrow> mset (vals xs) = mset (vals ys)"
    by simp
qed

lemma sorted_vals:
  "sorted_wrt (slot_precedes P) xs \<Longrightarrow> sorted_wrt (precedes P) (vals xs)"
proof (induction xs rule: vals.induct)
  case (2 t xs)
  then show ?case
    by (auto simp: set_vals slot_precedes_def)
qed simp_all

subsection \<open>The forEach\<close>

lemma dispatch_Inr:
  "dispatch al t = Inr task \<Longrightarrow> entity task = Some t \<and> TypeOrder (kind t) \<noteq> None"
  by (auto simp: dispatch_def TypeOrder_def kind_defs split: if_splits)

lemma dispatch_Inl:
  "dispatch al t = Inl e \<Longrightarrow>
     TypeOrder (kind t) = None \<and> e = Error (''Unexpected type: '' @ kind_text (kind t))"
  by (auto simp: dispatch_def TypeOrder_def kind_defs split: if_splits)

lemma entities_append: "entities (xs @ ys) = entities xs @ entities ys"
  by (induction xs) (auto split: option.splits)

lemma forEach_push_Inr:
  "forEach_push al ts acc = Inr q \<Longrightarrow>
     entities q = entities acc @ vals ts \<and> take (length acc) q = acc
     \<and> (\<forall>t\<in>set (vals ts). TypeOrder (kind t) \<noteq> None)"
proof (induction al ts acc arbitrary: q rule: forEach_push.induct)
  case (2 al t ts acc)
  then obtain task where task: "dispatch al t = Inr task" "forEach_push al ts (acc @ [task]) = Inr q"
    by (auto split: sum.splits)
  from "2.IH" [OF task] dispatch_Inr [OF task(1)] show ?case
    by (auto simp: entities_append dest: arg_cong [where f = "take (length acc)"])
qed auto

lemma forEach_push_Inl:
  "forEach_push al ts acc = Inl e \<Longrightarrow>
     \<exists>t\<in>set (vals ts). TypeOrder (kind t) = None
        \<and> e = Error (''Unexpected type: '' @ kind_text (kind t))"
proof (induction al ts acc rule: forEach_push.induct)
  case (2 al t ts acc)
  then show ?case
    by (auto split: sum.splits dest: dispatch_Inl)
qed auto

lemma forEach_push_unknown:
  "t \<in> set (vals ts) \<Longrightarrow> TypeOrder (kind t) = None \<Longrightarrow> \<exists>e. forEach_push al ts acc = Inl e"
proof (induction al ts acc rule: forEach_push.induct)
  case (2 al u ts acc)
  then show ?case
    by (cases "dispatch al u") (auto dest: dispatch_Inr)
qed auto


subsection \<open>Null slots in the sort\<close>

lemma compareTypes_simps:
  "compareTypes P Null b = Inl TypeError"
  "compareTypes P Undefined b = Inl TypeError"
  "compareTypes P (Val x) Null = Inl TypeError"
  "compareTypes P (Val x) Undefined = Inl TypeError"
  "\<exists>c. compareTypes P (Val x) (Val y) = Inr c"
  by (simp_all add: compareTypes_def)

lemma insert_by_objects:
  "objects ys \<Longrightarrow> \<exists>zs. insert_by (compareTypes P) (Val v) ys = Inr zs \<and> objects zs \<and> zs \<noteq> []"
proof (induction ys)
  case Nil
  then show ?case by (simp add: objects_def)
next
  case (Cons y ys)
  then obtain u where u: "y = Val u" and ys: "objects ys"
    by (auto simp: objects_def)
  from compareTypes_simps(5) obtain c where c: "compareTypes P (Val u) (Val v) = Inr c"
    by blast
  from Cons.IH [OF ys] obtain zs where "insert_by (compareTypes P) (Val v) ys = Inr zs" "objects zs"
    by blast
  with u c ys show ?case
    by (auto simp: objects_def)
qed

lemma sort_into_objects:
  "objects xs \<Longrightarrow> objects acc \<Longrightarrow> \<exists>ys. sort_into (compareTypes P) xs acc = Inr ys"
proof (induction xs arbitrary: acc)
  case Nil
  then show ?case by simp
next
  case (Cons x xs)
  then obtain v where v: "x = Val v" and xs: "objects xs"
    by (auto simp: objects_def)
  from insert_by_objects [OF Cons.prems(2), of P v] obtain zs
    where zs: "insert_by (compareTypes P) (Val v) acc = Inr zs" "objects zs"
    by blast
  from Cons.IH [OF xs zs(2)] v zs(1) show ?case
    by auto
qed

lemma sort_into_null:
  "Undefined \<notin> set xs \<Longrightarrow> objects acc \<Longrightarrow> Null \<in> set xs \<Longrightarrow> acc \<noteq> [] \<or> 2 \<le> length xs
     \<Longrightarrow> sort_into (compareTypes P) xs acc = Inl TypeError"
proof (induction xs arbitrary: acc)
  case Nil
  then show ?case by simp
next
  case (Cons x xs)
  show ?case
  proof (cases x)
    case Undefined
    with Cons.prems show ?thesis by simp
  next
    case Null
    show ?thesis
    proof (cases acc)
      case Nil
      with Cons.prems obtain x' xs' where "xs = x' # xs'"
        by (cases xs) auto
      with Nil Null show ?thesis
        by (simp add: compareTypes_simps)
    next
      case (Cons y ys)
      with \<open>objects acc\<close> obtain u where "y = Val u"
        by (auto simp: objects_def)
      with Cons Null show ?thesis
        by (simp add: compareTypes_simps)
    qed
  next
    case (Val v)
    from insert_by_objects [OF Cons.prems(2), of P v] obtain zs
      where zs: "insert_by (compareTypes P) (Val v) acc = Inr zs" "objects zs" "zs \<noteq> []"
      by blast
    from Cons.prems Val have "Undefined \<notin> set xs" "Null \<in> set xs"
      by auto
    from Cons.IH [OF this(1) zs(2) this(2)] zs Val show ?thesis
      by simp
  qed
qed

lemma defined_cases:
  "Undefined \<notin> set xs \<Longrightarrow> Null \<notin> set xs \<Longrightarrow> objects xs"
  unfolding objects_def by (metis js.exhaust)

lemma single_null: "Null \<in> set D \<Longrightarrow> length D < 2 \<Longrightarrow> D = [Null]"
  by (cases D) (auto simp: less_Suc_eq numeral_2_eq_2)

lemma Array_sort_null:
  assumes "Null \<in> set xs" "2 \<le> length (filter (\<lambda>x. x \<noteq> Undefined) xs)"
  shows "Array_sort (compareTypes P) xs = Inl TypeError"
proof -
  have "sort_into (compareTypes P) (filter (\<lambda>x. x \<noteq> Undefined) xs) [] = Inl TypeError"
    using assms by (intro sort_into_null) (auto simp: objects_def)
  then show ?thesis
    by (simp add: Array_sort_def)
qed

lemma Array_sort_Inl: "Array_sort (compareTypes P) xs = Inl e \<Longrightarrow>
   e = TypeError \<and> Null \<in> set xs \<and> 2 \<le> length (filter (\<lambda>x. x \<noteq> Undefined) xs)"
proof -
  assume a: "Array_sort (compareTypes P) xs = Inl e"
  let ?D = "filter (\<lambda>x. x \<noteq> Undefined) xs"
  from a have f: "sort_into (compareTypes P) ?D [] = Inl e"
    by (auto simp: Array_sort_def split: sum.splits)
  have n: "Null \<in> set ?D"
  proof (rule ccontr)
    assume "Null \<notin> set ?D"
    then have "objects ?D"
      by (intro defined_cases) auto
    from sort_into_objects [OF this, of "[]" P] f show False
      by (auto simp: objects_def)
  qed
  have l: "2 \<le> length ?D"
  proof (rule ccontr)
    assume "\<not> 2 \<le> length ?D"
    with n have "?D = [Null]"
      by (intro single_null) auto
    with f show False by simp
  qed
  from n l Array_sort_null [of xs P] a show ?thesis
    by auto
qed


subsection \<open>The queue builder\<close>

lemma queue_Inr:
  assumes "createSchemaDefinitionQueue P schema al = Inr (schema', queue)"
  shows "\<exists>st. Array_sort (compareTypes P) (types schema) = Inr st
            \<and> schema' = schema\<lparr>types := st\<rparr>
            \<and> forEach_push (mergedAlias al) st
                 [UtilTask, ResponseTask (rootNames schema @ [''null''])] = Inr queue"
  using assms by (auto simp: createSchemaDefinitionQueue_def Let_def split: sum.splits)

lemma queue_Inl:
  assumes "createSchemaDefinitionQueue P schema al = Inl e"
  shows "(e = TypeError \<and> Null \<in> set (types schema)
            \<and> 2 \<le> length (filter (\<lambda>x. x \<noteq> Undefined) (types schema)))
         \<or> (\<exists>t. Val t \<in> set (types schema) \<and> TypeOrder (kind t) = None
                \<and> e = Error (''Unexpected type: '' @ kind_text (kind t)))"
proof (cases "Array_sort (compareTypes P) (types schema)")
  case (Inl e')
  with assms have "e' = e"
    by (simp add: createSchemaDefinitionQueue_def Let_def)
  with Array_sort_Inl [of P "types schema" e] Inl show ?thesis
    by simp
next
  case (Inr st)
  with assms have "forEach_push (mergedAlias al) st
      [UtilTask, ResponseTask (rootNames schema @ [''null''])] = Inl e"
    by (simp add: createSchemaDefinitionQueue_def Let_def split: sum.splits)
  from forEach_push_Inl [OF this] obtain t where t: "t \<in> set (vals st)"
    "TypeOrder (kind t) = None" "e = Error (''Unexpected type: '' @ kind_text (kind t))"
    by blast
  from Array_sort_mset [OF Inr] have "set st = set (types schema)"
    by (rule mset_eq_setD)
  with t show ?thesis
    by (auto simp: set_vals)
qed

text \<open>The sorted array: the defined slots in order, then the undefined ones.\<close>

lemma sorted_slots:
  assumes "consistent (localeCompare P)"
    and "Array_sort (compareTypes P) xs = Inr st"
    and "\<forall>t\<in>set (vals st). TypeOrder (kind t) \<noteq> None"
  shows "sorted_wrt (precedes P) (vals st) \<and> Array_sort (compareTypes P) st = Inr st"
proof -
  let ?D = "filter (\<lambda>x. x \<noteq> Undefined) xs" and ?U = "filter (\<lambda>x. x = Undefined) xs"
  from Array_sort_shape [OF assms(2)] obtain ds
    where ds: "sort_into (compareTypes P) ?D [] = Inr ds" "st = ds @ ?U"
    by blast
  from sort_into_mset [OF ds(1)] have m: "mset ds = mset ?D"
    by simp
  then have sd: "set ds = set ?D"
    by (rule mset_eq_setD)
  then have filt: "filter (\<lambda>x. x \<noteq> Undefined) st = ds" "filter (\<lambda>x. x = Undefined) st = ?U"
    using ds(2) by (auto simp: filter_id_conv filter_empty_conv)
  show ?thesis
  proof (cases "Null \<in> set xs")
    case True
    with Array_sort_null [of xs P] assms(2) have "length ?D < 2"
      by (cases "2 \<le> length ?D") auto
    moreover from True have "Null \<in> set ?D" by simp
    ultimately have "?D = [Null]"
      by (rule single_null [rotated])
    with ds have "ds = [Null]" by simp
    with ds(2) filt show ?thesis
      by (simp add: Array_sort_def vals_append vals_undefined)
  next
    case False
    have "set ds \<subseteq> known"
    proof
      fix s assume s: "s \<in> set ds"
      with sd False have "s \<noteq> Undefined" "s \<noteq> Null" by auto
      then obtain t where "s = Val t" by (cases s) auto
      with s ds(2) assms(3) show "s \<in> known"
        by (auto simp: known_def set_vals)
    qed
    with sd have sub: "set ?D \<subseteq> known" by simp
    from sort_into_sorted [OF compareTypes_agrees [OF assms(1)] sub, of "[]"] ds(1)
    have srt: "sorted_wrt (slot_precedes P) ds" by auto
    from sort_into_sorted_id [OF compareTypes_agrees [OF assms(1)] \<open>set ds \<subseteq> known\<close>, of "[]"] srt
    have "sort_into (compareTypes P) ds [] = Inr ds" by simp
    with filt ds(2) sorted_vals [OF srt] show ?thesis
      by (simp add: Array_sort_def vals_append vals_undefined)
  qed
qed

lemma queue_sorted:
  assumes "consistent (localeCompare P)"
    and "createSchemaDefinitionQueue P schema al = Inr (schema', queue)"
  shows "sorted_wrt (precedes P) (entities queue)
         \<and> createSchemaDefinitionQueue P schema' al = Inr (schema', queue)"
proof -
  from queue_Inr [OF assms(2)] obtain st where st:
    "Array_sort (compareTypes P) (types schema) = Inr st" "schema' = schema\<lparr>types := st\<rparr>"
    "forEach_push (mergedAlias al) st
       [UtilTask, ResponseTask (rootNames schema @ [''null''])] = Inr queue"
    by blast
  from forEach_push_Inr [OF st(3)]
  have q: "entities queue = vals st" "\<forall>t\<in>set (vals st). TypeOrder (kind t) \<noteq> None"
    by auto
  from sorted_slots [OF assms(1) st(1) q(2)]
  have "sorted_wrt (precedes P) (vals st)" "Array_sort (compareTypes P) st = Inr st"
    by auto
  with q st show ?thesis
    by (simp add: createSchemaDefinitionQueue_def rootNames_def)
qed

lemma queue_frame:
  assumes "createSchemaDefinitionQueue P schema al = Inr (schema', queue)"
  shows "schema' = schema\<lparr>types := types schema'\<rparr> \<and> mset (types schema') = mset (types schema)
         \<and> entities queue = vals (types schema')
         \<and> take 2 queue = [UtilTask, ResponseTask (rootNames schema @ [''null''])]"
proof -
  from queue_Inr [OF assms] obtain st where st:
    "Array_sort (compareTypes P) (types schema) = Inr st" "schema' = schema\<lparr>types := st\<rparr>"
    "forEach_push (mergedAlias al) st
       [UtilTask, ResponseTask (rootNames schema @ [''null''])] = Inr queue"
    by blast
  from forEach_push_Inr [OF st(3)] Array_sort_mset [OF st(1)] st(2) show ?thesis
    by (simp add: numeral_2_eq_2)
qed

lemma forEach_push_mem:
  "forEach_push al ts acc = Inr q \<Longrightarrow> Val t \<in> set ts \<Longrightarrow> dispatch al t = Inr task
     \<Longrightarrow> task \<in> set q"
proof (induction al ts acc arbitrary: q rule: forEach_push.induct)
  case (2 al u ts acc)
  then obtain task' where task': "dispatch al u = Inr task'"
    "forEach_push al ts (acc @ [task']) = Inr q"
    by (auto split: sum.splits)
  from forEach_push_Inr [OF task'(2)] have pre: "take (length (acc @ [task'])) q = acc @ [task']"
    by blast
  show ?case
  proof (cases "t = u")
    case True
    with "2.prems" task' have "task' = task" by simp
    moreover have "task' \<in> set (take (length (acc @ [task'])) q)"
      unfolding pre by simp
    ultimately show ?thesis
      by (auto dest: in_set_takeD)
  next
    case False
    with "2.prems" have "Val t \<in> set ts" by auto
    from "2.IH" [OF task' this "2.prems"(3)] show ?thesis .
  qed
qed auto

lemma schemaToDefinition_Inr:
  assumes "schemaToDefinition P schema al = Inr (schema', out)"
  shows "\<exists>queue outs. createSchemaDefinitionQueue P schema al = Inr (schema', queue)
           \<and> mapE (run P) queue = Inr outs
           \<and> out = join (EOL P @ EOL P) outs @ EOL P @ EOL P"
  using assms by (auto simp: schemaToDefinition_def split: sum.splits prod.splits)

section \<open>The order of emission\<close>

lemma ordinalCompare_swap: "(ordinalCompare a b < 0) = (0 < ordinalCompare b a)"
  by (induction a b rule: ordinalCompare.induct) auto

lemma ordinalCompare_trans:
  "ordinalCompare a b \<le> 0 \<Longrightarrow> ordinalCompare b c \<le> 0 \<Longrightarrow> ordinalCompare a c \<le> 0"
proof (induction a b arbitrary: c rule: ordinalCompare.induct)
  case (1)
  then show ?case by simp
next
  case (2 y ys)
  then show ?case by (cases c) auto
next
  case (3 x xs)
  then show ?case by simp
next
  case (4 x xs y ys)
  show ?case
  proof (cases c)
    case Nil
    with "4.prems" show ?thesis by simp
  next
    case (Cons z zs)
    let ?a = "of_char x :: nat" and ?b = "of_char y :: nat" and ?c = "of_char z :: nat"
    from "4.prems"(1) have ab: "?a < ?b \<or> (?a = ?b \<and> ordinalCompare xs ys \<le> 0)"
      by (simp split: if_splits)
    from "4.prems"(2) Cons have bc: "?b < ?c \<or> (?b = ?c \<and> ordinalCompare ys zs \<le> 0)"
      by (simp split: if_splits)
    show ?thesis
    proof (cases "?a = ?b \<and> ?b = ?c")
      case True
      with ab bc have "ordinalCompare xs ys \<le> 0" "ordinalCompare ys zs \<le> 0"
        by auto
      with True "4.IH" [of zs] have "ordinalCompare xs zs \<le> 0"
        by simp
      with True Cons show ?thesis
        by simp
    next
      case False
      with ab bc have "?a < ?c"
        by auto
      with Cons show ?thesis
        by simp
    qed
  qed
qed

lemma consistent_posix: "consistent (localeCompare posix)"
  unfolding consistent_def posix_def
  using ordinalCompare_swap ordinalCompare_trans by auto

lemma mergedAlias_empty: "mergedAlias Map.empty = Map.empty ++ standardAlias"
  by (simp add: mergedAlias_def)

lemmas example_defs = mergedAlias_empty
  orderingExample_def orderingSorted_def schemaOf_def entityOf_def kind_defs
  createSchemaDefinitionQueue_def Array_sort_def compareTypes_def TypeOrder_def dispatch_def
  rootNames_def

text \<open>
  C3. When the queue is built, it starts with the two preamble units and the entities
  of the following blocks are the objects of \<open>schema.types\<close>, sorted by kind precedence
  (SCALAR, ENUM, UNION, INTERFACE, OBJECT, INPUT_OBJECT) and within a kind by the
  locale's comparison of the names, ascending. In particular the entities B:OBJECT,
  A:SCALAR, Z:ENUM, A2:OBJECT are emitted in the order A, Z, A2, B. The locale's
  comparison is any consistent one (that puts A2 before B, for the example).
\<close>

theorem emission_order:
  assumes "consistent (localeCompare P)"
  shows "(createSchemaDefinitionQueue P schema al = Inr (schema', queue)
            \<longrightarrow> take 2 queue = [UtilTask, ResponseTask (rootNames schema @ [''null''])]
              \<and> sorted_wrt (precedes P) (entities queue)
              \<and> mset (entities queue) = mset (vals (types schema)))
         \<and> (localeCompare P ''A2'' ''B'' < 0
            \<longrightarrow> emitted P orderingExample al
                  = Inr [entityOf ''A'' SCALAR, entityOf ''Z'' ENUM,
                         entityOf ''A2'' OBJECT, entityOf ''B'' OBJECT])"
proof -
  have general: "take 2 queue = [UtilTask, ResponseTask (rootNames schema @ [''null''])]
      \<and> sorted_wrt (precedes P) (entities queue)
      \<and> mset (entities queue) = mset (vals (types schema))"
    if q: "createSchemaDefinitionQueue P schema al = Inr (schema', queue)"
    using queue_sorted [OF assms q] queue_frame [OF q] mset_vals [of "types schema'" "types schema"]
    by simp
  have example: "emitted P orderingExample al
      = Inr [entityOf ''A'' SCALAR, entityOf ''Z'' ENUM, entityOf ''A2'' OBJECT, entityOf ''B'' OBJECT]"
    if "localeCompare P ''A2'' ''B'' < 0"
  proof -
    from assms that have "0 < localeCompare P ''B'' ''A2''"
      unfolding consistent_def by blast
    then show ?thesis
      by (simp add: emitted_def example_defs)
  qed
  from general example show ?thesis
    by blast
qed


theorem emission_order_witness:
  "consistent (localeCompare posix)
   \<and> localeCompare posix ''A2'' ''B'' < 0
   \<and> createSchemaDefinitionQueue posix orderingExample Map.empty
       = Inr (orderingSorted,
              [UtilTask, ResponseTask [''null''],
               ScalarTask (entityOf ''A'' SCALAR) (Map.empty ++ standardAlias),
               EnumTask (entityOf ''Z'' ENUM), ObjectTask (entityOf ''A2'' OBJECT),
               ObjectTask (entityOf ''B'' OBJECT)])
   \<and> sorted_wrt (precedes posix)
       [entityOf ''A'' SCALAR, entityOf ''Z'' ENUM, entityOf ''A2'' OBJECT, entityOf ''B'' OBJECT]
   \<and> emitted posix orderingExample Map.empty
       = Inr [entityOf ''A'' SCALAR, entityOf ''Z'' ENUM,
              entityOf ''A2'' OBJECT, entityOf ''B'' OBJECT]"
proof -
  have lt: "localeCompare posix ''A2'' ''B'' < 0"
    by (simp add: posix_def)
  have q: "createSchemaDefinitionQueue posix orderingExample Map.empty
       = Inr (orderingSorted,
              [UtilTask, ResponseTask [''null''],
               ScalarTask (entityOf ''A'' SCALAR) (Map.empty ++ standardAlias),
               EnumTask (entityOf ''Z'' ENUM), ObjectTask (entityOf ''A2'' OBJECT),
               ObjectTask (entityOf ''B'' OBJECT)])"
    by (simp add: example_defs posix_def)
  let ?queue = "[UtilTask, ResponseTask [''null''],
               ScalarTask (entityOf ''A'' SCALAR) (Map.empty ++ standardAlias),
               EnumTask (entityOf ''Z'' ENUM), ObjectTask (entityOf ''A2'' OBJECT),
               ObjectTask (entityOf ''B'' OBJECT)]"
  from emission_order [OF consistent_posix, of orderingExample Map.empty orderingSorted ?queue]
  have "sorted_wrt (precedes posix) (entities ?queue)"
    and "emitted posix orderingExample Map.empty
       = Inr [entityOf ''A'' SCALAR, entityOf ''Z'' ENUM,
              entityOf ''A2'' OBJECT, entityOf ''B'' OBJECT]"
    using q lt by (blast, blast)
  then show ?thesis
    using q lt consistent_posix by simp
qed

lemma ordering_queue:
  "createSchemaDefinitionQueue posix orderingExample Map.empty
     = Inr (orderingSorted,
            [UtilTask, ResponseTask [''null''],
             ScalarTask (entityOf ''A'' SCALAR) (Map.empty ++ standardAlias),
             EnumTask (entityOf ''Z'' ENUM), ObjectTask (entityOf ''A2'' OBJECT),
             ObjectTask (entityOf ''B'' OBJECT)])"
  by (simp add: example_defs posix_def)

lemma ordering_text:
  "schemaToDefinition posix orderingExample Map.empty = Inr (orderingSorted, orderingText)"
  unfolding schemaToDefinition_def ordering_queue
  by (simp add: orderingText_def scalarToDefinition_def enumToDefinition_def
      enumValuesToDefinition_def typeToDefinition_def fieldsToDefinition_def truthy_def
      entityOf_def posix_def standardAlias_def kind_defs lookupAlias_def prototypeMember_def
      prototypeFunctions_def)

section \<open>The alias table\<close>

text \<open>
  C1, amended. The four standard entries win over the caller's: whatever the caller's
  table holds, the block of a SCALAR entity is rendered with the standard expression
  when its name is Boolean, Int, Float or String (for Int: \<open>number\<close>). Under another
  name the caller's entry is used; with no entry the lookup goes on to
  \<open>Object.prototype\<close>, and the block falls back to \<open>string\<close> when that has no member of
  the name either.
\<close>

theorem standard_alias_precedence:
  assumes "createSchemaDefinitionQueue P schema al = Inr (schema', queue)"
    and "Val t \<in> set (types schema)" and "kind t = Some SCALAR"
  shows "ScalarTask t (mergedAlias al) \<in> set queue
         \<and> run P (ScalarTask t (mergedAlias al))
             = Inr (scalarToDefinition P t
                      (case standardAlias (name t) of Some a \<Rightarrow> Some a
                       | None \<Rightarrow>
                           (if name t = ''__proto__'' then inherited P (name t)
                            else (case al (name t) of Some a \<Rightarrow> Some a
                                  | None \<Rightarrow> inherited P (name t)))))
         \<and> (name t = ''Int'' \<longrightarrow>
              run P (ScalarTask t (mergedAlias al))
                = Inr (scalarToDefinition P t (Some ''number'')))
         \<and> (standardAlias (name t) = None \<and> al (name t) = None \<and> inherited P (name t) = None
              \<longrightarrow> run P (ScalarTask t (mergedAlias al))
                    = Inr (scalarToDefinition P t None))"
proof -
  from queue_Inr [OF assms(1)] obtain st where st:
    "Array_sort (compareTypes P) (types schema) = Inr st"
    "forEach_push (mergedAlias al) st
       [UtilTask, ResponseTask (rootNames schema @ [''null''])] = Inr queue"
    by blast
  from Array_sort_mset [OF st(1)] assms(2) have "Val t \<in> set st"
    by (metis mset_eq_setD)
  moreover from assms(3) have "dispatch (mergedAlias al) t = Inr (ScalarTask t (mergedAlias al))"
    by (simp add: dispatch_def)
  ultimately have mem: "ScalarTask t (mergedAlias al) \<in> set queue"
    using forEach_push_mem [OF st(2)] by blast
  have look: "lookupAlias P (mergedAlias al) (name t)
      = (case standardAlias (name t) of Some a \<Rightarrow> Some a
         | None \<Rightarrow>
             (if name t = ''__proto__'' then inherited P (name t)
              else (case al (name t) of Some a \<Rightarrow> Some a | None \<Rightarrow> inherited P (name t))))"
    by (simp add: lookupAlias_def mergedAlias_def map_add_def split: option.splits)
  have int: "standardAlias ''Int'' = Some ''number''"
    by (simp add: standardAlias_def)
  have "run P (ScalarTask t (mergedAlias al)) = Inr (scalarToDefinition P t (Some ''number''))"
    if "name t = ''Int''"
    using that look int by simp
  moreover have "run P (ScalarTask t (mergedAlias al)) = Inr (scalarToDefinition P t None)"
    if "standardAlias (name t) = None \<and> al (name t) = None \<and> inherited P (name t) = None"
  proof -
    from that have "lookupAlias P (mergedAlias al) (name t) = None"
      unfolding look by auto
    then show ?thesis by simp
  qed
  ultimately show ?thesis
    using mem look by simp
qed

theorem standard_alias_precedence_witness:
  "createSchemaDefinitionQueue posix intSchema [''Int'' \<mapsto> ''bigint-equivalent'']
     = Inr (intSchema, [UtilTask, ResponseTask [''null''],
                        ScalarTask (entityOf ''Int'' SCALAR)
                          (mergedAlias [''Int'' \<mapsto> ''bigint-equivalent''])])
   \<and> Val (entityOf ''Int'' SCALAR) \<in> set (types intSchema)
   \<and> kind (entityOf ''Int'' SCALAR) = Some SCALAR
   \<and> name (entityOf ''Int'' SCALAR) = ''Int''
   \<and> run posix (ScalarTask (entityOf ''Int'' SCALAR)
                   (mergedAlias [''Int'' \<mapsto> ''bigint-equivalent'']))
       = Inr ''export type Int = number;''
   \<and> run posix (ScalarTask (entityOf ''Token'' SCALAR)
                   (mergedAlias [''Int'' \<mapsto> ''bigint-equivalent'']))
       = Inr ''export type Token = string;''
   \<and> run posix (ScalarTask (entityOf ''constructor'' SCALAR)
                   (mergedAlias [''Int'' \<mapsto> ''bigint-equivalent'']))
       = Inr ''export type constructor = function Object() { [native code] };''"
proof -
  let ?al = "[''Int'' \<mapsto> ''bigint-equivalent'']"
  let ?t = "entityOf ''Int'' SCALAR"
  have q: "createSchemaDefinitionQueue posix intSchema ?al
     = Inr (intSchema, [UtilTask, ResponseTask [''null''], ScalarTask ?t (mergedAlias ?al)])"
    by (simp add: intSchema_def example_defs)
  have m: "Val ?t \<in> set (types intSchema)" "kind ?t = Some SCALAR" "name ?t = ''Int''"
    by (simp_all add: intSchema_def schemaOf_def entityOf_def)
  from standard_alias_precedence [OF q m(1,2)] m(3)
  have "run posix (ScalarTask ?t (mergedAlias ?al))
          = Inr (scalarToDefinition posix ?t (Some ''number''))"
    by blast
  moreover have "scalarToDefinition posix ?t (Some ''number'') = ''export type Int = number;''"
    by (simp add: scalarToDefinition_def entityOf_def truthy_def)
  moreover have "run posix (ScalarTask (entityOf ''Token'' SCALAR) (mergedAlias ?al))
      = Inr ''export type Token = string;''"
    by (simp add: lookupAlias_def mergedAlias_def standardAlias_def posix_def prototypeMember_def
        prototypeFunctions_def scalarToDefinition_def entityOf_def truthy_def)
  moreover have "run posix (ScalarTask (entityOf ''constructor'' SCALAR) (mergedAlias ?al))
      = Inr ''export type constructor = function Object() { [native code] };''"
    by (simp add: lookupAlias_def mergedAlias_def standardAlias_def posix_def prototypeMember_def
        scalarToDefinition_def entityOf_def truthy_def)
  ultimately show ?thesis
    using q m by simp
qed

theorem alias_override_ignored:
  "blocks posix intSchema [''Int'' \<mapsto> ''bigint-equivalent'']
     = Inr [Inr ''export type Int = number;'']
   \<and> blocks posix intSchema [''Int'' \<mapsto> ''bigint-equivalent'']
     \<noteq> Inr [Inr ''export type Int = bigint-equivalent;'']"
  by (simp add: blocks_def intSchema_def example_defs scalarToDefinition_def truthy_def
      lookupAlias_def mergedAlias_def standardAlias_def)

section \<open>What a translation changes\<close>

text \<open>
  C5, amended. A translation that succeeds changes nothing of the schema but the order of
  \<open>schema.types\<close>: the root types and the directives are as before and the array holds
  the same slots, but it is left sorted, its objects in the order of emission.
\<close>

theorem translation_frame:
  "(createSchemaDefinitionQueue P schema al = Inr (schema', queue)
      \<longrightarrow> schema' = schema\<lparr>types := types schema'\<rparr>
        \<and> mset (types schema') = mset (types schema)
        \<and> vals (types schema') = entities queue)
   \<and> (schemaToDefinition P schema al = Inr (schema', out)
      \<longrightarrow> schema' = schema\<lparr>types := types schema'\<rparr>
        \<and> mset (types schema') = mset (types schema))"
proof -
  have "schema' = schema\<lparr>types := types schema'\<rparr> \<and> mset (types schema') = mset (types schema)"
    if "schemaToDefinition P schema al = Inr (schema', out)"
    using schemaToDefinition_Inr [OF that] queue_frame by blast
  moreover have "schema' = schema\<lparr>types := types schema'\<rparr>
      \<and> mset (types schema') = mset (types schema) \<and> vals (types schema') = entities queue"
    if "createSchemaDefinitionQueue P schema al = Inr (schema', queue)"
    using queue_frame [OF that] by simp
  ultimately show ?thesis
    by blast
qed

theorem translation_frame_witness:
  "createSchemaDefinitionQueue posix orderingExample Map.empty
     = Inr (orderingSorted,
            [UtilTask, ResponseTask [''null''],
             ScalarTask (entityOf ''A'' SCALAR) (Map.empty ++ standardAlias),
             EnumTask (entityOf ''Z'' ENUM), ObjectTask (entityOf ''A2'' OBJECT),
             ObjectTask (entityOf ''B'' OBJECT)])
   \<and> schemaToDefinition posix orderingExample Map.empty = Inr (orderingSorted, orderingText)
   \<and> orderingSorted = orderingExample\<lparr>types := types orderingSorted\<rparr>
   \<and> mset (types orderingSorted) = mset (types orderingExample)"
  using translation_frame [of posix orderingExample Map.empty orderingSorted _ orderingText]
    ordering_queue ordering_text
  by blast

theorem types_reordered:
  "typesAfter posix orderingExample Map.empty = Inr (types orderingSorted)
   \<and> types orderingSorted \<noteq> types orderingExample"
  unfolding typesAfter_def ordering_queue
  by (simp add: orderingSorted_def orderingExample_def schemaOf_def entityOf_def)

text \<open>
  C6. Translating a schema, and then translating the same schema object again with the
  same alias table, gives the same text. The second run starts from the array the first
  run sorted; sorting it again changes nothing, given a consistent locale comparison
  (and a sort that keeps the order of equal elements, as the one above does).
\<close>

theorem translation_repeatable:
  assumes "consistent (localeCompare P)"
    and "schemaToDefinition P schema al = Inr (schema', out)"
  shows "schemaToDefinition P schema' al = Inr (schema', out)"
proof -
  from schemaToDefinition_Inr [OF assms(2)] obtain queue outs where
    q: "createSchemaDefinitionQueue P schema al = Inr (schema', queue)"
    and outs: "mapE (run P) queue = Inr outs" "out = join (EOL P @ EOL P) outs @ EOL P @ EOL P"
    by blast
  from queue_sorted [OF assms(1) q]
  have "createSchemaDefinitionQueue P schema' al = Inr (schema', queue)"
    by simp
  with outs show ?thesis
    by (simp add: schemaToDefinition_def)
qed

theorem translation_repeatable_witness:
  "consistent (localeCompare posix)
   \<and> schemaToDefinition posix orderingExample Map.empty = Inr (orderingSorted, orderingText)
   \<and> schemaToDefinition posix orderingSorted Map.empty = Inr (orderingSorted, orderingText)"
  using translation_repeatable [OF consistent_posix ordering_text] consistent_posix ordering_text
  by simp

section \<open>Unknown kinds and falsy slots\<close>

lemma null_beside_entry_throws:
  assumes "Null \<in> set (types schema)"
    and "2 \<le> length (filter (\<lambda>x. x \<noteq> Undefined) (types schema))"
  shows "createSchemaDefinitionQueue P schema al = Inl TypeError"
  using Array_sort_null [OF assms, of P]
  by (simp add: createSchemaDefinitionQueue_def)

lemma unknown_kind_fatal:
  assumes "Val t \<in> set (types schema)" and "TypeOrder (kind t) = None"
  shows "\<exists>e. createSchemaDefinitionQueue P schema al = Inl e
             \<and> schemaToDefinition P schema al = Inl e"
proof (cases "Array_sort (compareTypes P) (types schema)")
  case (Inl e)
  then show ?thesis
    by (simp add: schemaToDefinition_def createSchemaDefinitionQueue_def)
next
  case (Inr st)
  from Array_sort_mset [OF Inr] assms(1) have "Val t \<in> set st"
    by (metis mset_eq_setD)
  then have "t \<in> set (vals st)"
    by (simp add: set_vals)
  from forEach_push_unknown [OF this assms(2)] obtain e where
    "forEach_push (mergedAlias al) st
       [UtilTask, ResponseTask (rootNames schema @ [''null''])] = Inl e"
    by blast
  with Inr show ?thesis
    by (simp add: schemaToDefinition_def createSchemaDefinitionQueue_def)
qed

lemma unknown_kind_message:
  assumes "createSchemaDefinitionQueue P schema al = Inl e" and "Null \<notin> set (types schema)"
  shows "\<exists>t. Val t \<in> set (types schema) \<and> TypeOrder (kind t) = None
             \<and> e = Error (''Unexpected type: '' @ kind_text (kind t))"
  using queue_Inl [OF assms(1)] assms(2) by blast

text \<open>
  C7. An entity of an unknown kind always makes the translation throw (the two lemmas
  above), and without a \<open>null\<close> slot the error names the kind. Beside a \<open>null\<close> slot,
  however, the translation throws the comparator's TypeError, which names no kind: here
  for an entity of kind FOO, with and without a \<open>null\<close> before it.
\<close>

theorem unknown_kind_beside_null:
  "createSchemaDefinitionQueue P (schemaOf [Null, Val (entityOf n ''FOO'')]) al = Inl TypeError
   \<and> schemaToDefinition P (schemaOf [Null, Val (entityOf n ''FOO'')]) al = Inl TypeError
   \<and> createSchemaDefinitionQueue P (schemaOf [Val (entityOf n ''FOO'')]) al
       = Inl (Error ''Unexpected type: FOO'')"
  by (simp add: schemaToDefinition_def createSchemaDefinitionQueue_def Array_sort_def
      compareTypes_def schemaOf_def rootNames_def dispatch_def entityOf_def kind_defs
      kind_text_def)

text \<open>
  C10. The guard of the \<open>forEach\<close> passes over a falsy slot, but the sort runs first: a
  \<open>null\<close> slot beside any other defined slot makes the comparator throw a TypeError.
  Only a \<open>null\<close> that is the single defined slot, and \<open>undefined\<close> slots (which the sort
  does not compare), are dropped without an error.
\<close>

theorem null_slot_throws:
  "createSchemaDefinitionQueue P (schemaOf [Null, Val t]) al = Inl TypeError
   \<and> createSchemaDefinitionQueue P (schemaOf [Val t, Null]) al = Inl TypeError
   \<and> schemaToDefinition P (schemaOf [Null, Val t]) al = Inl TypeError
   \<and> createSchemaDefinitionQueue P (schemaOf [Null]) al
       = Inr (schemaOf [Null], [UtilTask, ResponseTask [''null'']])
   \<and> createSchemaDefinitionQueue P (schemaOf [Undefined, Val (entityOf n SCALAR), Undefined]) al
       = Inr (schemaOf [Val (entityOf n SCALAR), Undefined, Undefined],
              [UtilTask, ResponseTask [''null''],
               ScalarTask (entityOf n SCALAR) (mergedAlias al)])"
  by (simp add: schemaToDefinition_def createSchemaDefinitionQueue_def Array_sort_def
      compareTypes_def schemaOf_def rootNames_def dispatch_def entityOf_def)

section \<open>The three ways to run the queue, compared\<close>

lemma join_concat: "outs \<noteq> [] \<Longrightarrow> join sep outs @ sep = concat (map (\<lambda>text. text @ sep) outs)"
  by (induction sep outs rule: join.induct) simp_all

lemma read_loop_ok:
  "mapE (run P) q = Inr outs \<Longrightarrow>
     \<exists>b' q1 q2 o1 o2. q = q1 @ q2 \<and> outs = o1 @ o2 \<and> mapE (run P) q2 = Inr o2
        \<and> read_loop P accept b q out
            = Inr (b', q2, out @ map (\<lambda>text. text @ EOL P @ EOL P) o1)
        \<and> (\<not> b' \<longrightarrow> q2 = []) \<and> (\<not> b \<and> q \<noteq> [] \<longrightarrow> q1 \<noteq> [])"
proof (induction q arbitrary: b out outs)
  case Nil
  then show ?case by simp
next
  case (Cons task q)
  then obtain chunk outs' where t: "run P task = Inr chunk" "mapE (run P) q = Inr outs'"
    "outs = chunk # outs'"
    by (auto split: sum.splits)
  show ?case
  proof (cases b)
    case True
    have "task # q = [] @ (task # q) \<and> outs = [] @ outs \<and> mapE (run P) (task # q) = Inr outs
        \<and> read_loop P accept b (task # q) out
            = Inr (True, task # q, out @ map (\<lambda>text. text @ EOL P @ EOL P) [])"
      using True Cons.prems by simp
    then show ?thesis
      using True by blast
  next
    case False
    from Cons.IH [OF t(2), of "accept (length out)" "out @ [chunk @ EOL P @ EOL P]"]
    obtain b' q1 q2 o1 o2 where r: "q = q1 @ q2" "outs' = o1 @ o2" "mapE (run P) q2 = Inr o2"
      "read_loop P accept (accept (length out)) q (out @ [chunk @ EOL P @ EOL P])
         = Inr (b', q2, (out @ [chunk @ EOL P @ EOL P]) @ map (\<lambda>text. text @ EOL P @ EOL P) o1)"
      "\<not> b' \<longrightarrow> q2 = []"
      by blast
    have "task # q = (task # q1) @ q2 \<and> outs = (chunk # o1) @ o2 \<and> mapE (run P) q2 = Inr o2
        \<and> read_loop P accept b (task # q) out
            = Inr (b', q2, out @ map (\<lambda>text. text @ EOL P @ EOL P) (chunk # o1))
        \<and> (\<not> b' \<longrightarrow> q2 = []) \<and> task # q1 \<noteq> []"
      using r t False by simp
    then show ?thesis
      by blast
  qed
qed

lemma consume_ended: "ended s \<Longrightarrow> consume P accept fuel s = Some (Inr (concat (chunks s)))"
  by (cases fuel) simp_all

lemma consume_ok:
  "mapE (run P) (r_queue s) = Inr outs \<Longrightarrow> \<not> ended s \<Longrightarrow> length (r_queue s) < fuel
     \<Longrightarrow> consume P accept fuel s
          = Some (Inr (concat (chunks s) @ concat (map (\<lambda>text. text @ EOL P @ EOL P) outs)))"
proof (induction fuel arbitrary: s outs)
  case 0
  then show ?case by simp
next
  case (Suc fuel)
  from read_loop_ok [OF Suc.prems(1), of accept False "chunks s"]
  obtain b' q1 q2 o1 o2 where r: "r_queue s = q1 @ q2" "outs = o1 @ o2" "mapE (run P) q2 = Inr o2"
    "read_loop P accept False (r_queue s) (chunks s)
       = Inr (b', q2, chunks s @ map (\<lambda>text. text @ EOL P @ EOL P) o1)"
    "\<not> b' \<longrightarrow> q2 = []" "r_queue s \<noteq> [] \<longrightarrow> q1 \<noteq> []"
    by blast
  let ?s' = "\<lparr>r_queue = q2, chunks = chunks s @ map (\<lambda>text. text @ EOL P @ EOL P) o1,
               ended = \<not> b'\<rparr>"
  from r(4) Suc.prems(2) have rd: "read' P accept s = Inr ?s'"
    by (simp add: read'_def)
  show ?case
  proof (cases b')
    case False
    with r have "o2 = []" by auto
    with False r(2) rd Suc.prems(2) consume_ended [of ?s' P accept fuel] show ?thesis
      by simp
  next
    case True
    have "r_queue s \<noteq> []"
    proof
      assume "r_queue s = []"
      with r(4) True show False by simp
    qed
    with r Suc.prems(3) have "length (r_queue ?s') < fuel"
      by (cases q1) auto
    from Suc.IH [of ?s' o2, OF _ _ this] r(3) True
    have "consume P accept fuel ?s'
        = Some (Inr (concat (chunks ?s') @ concat (map (\<lambda>text. text @ EOL P @ EOL P) o2)))"
      by simp
    with rd r(2) Suc.prems(2) show ?thesis
      by simp
  qed
qed

lemma readable_agrees_with_eager:
  assumes "schemaToDefinition P schema al = Inr (schema', out)"
  shows "\<exists>queue. createReadableSchemaDefinition P schema al
                   = Inr (schema', \<lparr>r_queue = queue, chunks = [], ended = False\<rparr>)
           \<and> consume P accept (Suc (length queue)) \<lparr>r_queue = queue, chunks = [], ended = False\<rparr>
               = Some (Inr out)"
proof -
  from schemaToDefinition_Inr [OF assms] obtain queue outs where
    q: "createSchemaDefinitionQueue P schema al = Inr (schema', queue)"
    and outs: "mapE (run P) queue = Inr outs" "out = join (EOL P @ EOL P) outs @ EOL P @ EOL P"
    by blast
  from queue_frame [OF q] have "queue \<noteq> []"
    by auto
  with outs(1) have "outs \<noteq> []"
    by (cases queue) (auto split: sum.splits)
  from join_concat [OF this, of "EOL P @ EOL P"] outs(2)
  have "out = concat (map (\<lambda>text. text @ EOL P @ EOL P) outs)"
    by simp
  moreover from consume_ok [of P "\<lparr>r_queue = queue, chunks = [], ended = False\<rparr>" outs
      "Suc (length queue)" accept] outs(1)
  have "consume P accept (Suc (length queue)) \<lparr>r_queue = queue, chunks = [], ended = False\<rparr>
      = Some (Inr (concat (map (\<lambda>text. text @ EOL P @ EOL P) outs)))"
    by simp
  ultimately show ?thesis
    using q by (simp add: createReadableSchemaDefinition_def)
qed

lemma next_when_called:
  "mapE (run P) q = Inr outs \<Longrightarrow>
     settled (run_ticks P \<lparr>p_queue = q, buff = b, settled = Pending, ticks = 1\<rparr>)
       = Resolved (b @ concat (map (\<lambda>text. text @ EOL P @ EOL P) outs))"
proof (induction q arbitrary: b outs)
  case Nil
  then show ?case
    by (simp add: run_ticks.simps next_def settle_def)
next
  case (Cons task q)
  then obtain chunk outs' where t: "run P task = Inr chunk" "mapE (run P) q = Inr outs'"
    "outs = chunk # outs'"
    by (auto split: sum.splits)
  have "run_ticks P \<lparr>p_queue = task # q, buff = b, settled = Pending, ticks = 1\<rparr>
      = run_ticks P \<lparr>p_queue = q, buff = b @ chunk @ EOL P @ EOL P, settled = Pending, ticks = 1\<rparr>"
    by (subst run_ticks.simps) (simp add: next_def t)
  with Cons.IH [OF t(2), of "b @ chunk @ EOL P @ EOL P"] t(3) show ?case
    by simp
qed

lemma executor_pending: "settled (run_ticks P (executor queue)) = Pending"
  by (subst run_ticks.simps) (simp add: executor_def)

text \<open>
  C4. The promise of \<open>createPromiseSchemaDefinition\<close> is never settled, whatever the
  schema: its executor never calls \<open>next\<close>. For the schema with no types the eager
  translation returns the preamble while the promise stays pending. (The stream, read to
  its end, gives the text of the eager translation, and so would \<open>next\<close>, had it been
  called: the lemmas above.)
\<close>

theorem promise_never_settles:
  "createPromiseSchemaDefinition P schema al
     = (case createSchemaDefinitionQueue P schema al of Inl e \<Rightarrow> Inl e
        | Inr (schema', queue) \<Rightarrow> Inr (schema', Pending))
   \<and> schemaToDefinition posix (schemaOf []) Map.empty
       = Inr (schemaOf [],
              utilDefinition posix @ LF @ LF @ responseDefinition posix [''null''] @ LF @ LF)
   \<and> createPromiseSchemaDefinition posix (schemaOf []) Map.empty = Inr (schemaOf [], Pending)"
proof -
  note pending = executor_pending
  have q: "createSchemaDefinitionQueue posix (schemaOf []) Map.empty
      = Inr (schemaOf [], [UtilTask, ResponseTask [''null'']])"
    by (simp add: createSchemaDefinitionQueue_def Array_sort_def schemaOf_def rootNames_def)
  have "schemaToDefinition posix (schemaOf []) Map.empty
       = Inr (schemaOf [],
              utilDefinition posix @ LF @ LF @ responseDefinition posix [''null''] @ LF @ LF)"
    unfolding schemaToDefinition_def q by (simp add: posix_def)
  moreover have "createPromiseSchemaDefinition posix (schemaOf []) Map.empty
      = Inr (schemaOf [], Pending)"
    unfolding createPromiseSchemaDefinition_def q by (simp add: pending)
  moreover have "createPromiseSchemaDefinition P schema al
     = (case createSchemaDefinitionQueue P schema al of Inl e \<Rightarrow> Inl e
        | Inr (schema', queue) \<Rightarrow> Inr (schema', Pending))"
    by (simp add: createPromiseSchemaDefinition_def pending split: sum.splits prod.splits)
  ultimately show ?thesis
    by blast
qed

end
